theory Spec2Isabelle
  imports Main "HOL-Library.Word"
begin

section \<open>Data model\<close>

text \<open>
  A JavaScript string is a finite sequence of 16-bit code units, a \<open>Uint8Array\<close> a finite
  sequence of bytes. Code points and scalar values are natural numbers.
\<close>

type_synonym byte = "8 word"
type_synonym code_unit = "16 word"
type_synonym jsstring = "code_unit list"

text \<open>An ASCII literal as a JavaScript string, for examples.\<close>

definition js :: "string \<Rightarrow> jsstring" where
  "js s = map (\<lambda>c. of_nat (of_char c)) s"

section \<open>The line framing of \<open>src/utils/serialTransforms.ts\<close>\<close>

text \<open>The separator \<open>'\n'\<close> of \<open>buffer.split('\n')\<close>.\<close>

definition LF :: code_unit where
  "LF = 0x0A"

text \<open>
  \<open>String.prototype.split\<close> with a separator of one code unit: the string is scanned from
  the left, \<open>cur\<close> is the substring since the last separator; every separator closes a
  fragment, the end of the string closes the last one. The result is never empty:
  \<open>''.split('\n')\<close> is \<open>['']\<close>.
\<close>

fun split_from :: "code_unit \<Rightarrow> jsstring \<Rightarrow> jsstring \<Rightarrow> jsstring list" where
  "split_from sep cur [] = [cur]"
| "split_from sep cur (x # xs) =
     (if x = sep then cur # split_from sep [] xs else split_from sep (cur @ [x]) xs)"

definition split :: "jsstring \<Rightarrow> code_unit \<Rightarrow> jsstring list" where
  "split s sep = split_from sep [] s"

text \<open>
  \<open>Array.prototype.pop\<close>: the last element and the array without it; \<open>undefined\<close>
  (here \<open>None\<close>) on the empty array.
\<close>

definition pop :: "'a list \<Rightarrow> 'a option \<times> 'a list" where
  "pop xs = (if xs = [] then (None, []) else (Some (last xs), butlast xs))"

text \<open>\<open>v || ''\<close>: \<open>undefined\<close> and the empty string are falsy.\<close>

definition or_empty :: "jsstring option \<Rightarrow> jsstring" where
  "or_empty v = (case v of None \<Rightarrow> [] | Some s \<Rightarrow> if s = [] then [] else s)"

text \<open>
  \<open>LineBreakTransformer\<close>: the state is the closure variable \<open>buffer\<close>. \<open>transform\<close> and
  \<open>flush\<close> take the buffer and return what they enqueue on the controller, in order,
  and the buffer afterwards.
\<close>

definition transform :: "jsstring \<Rightarrow> jsstring \<Rightarrow> jsstring list \<times> jsstring" where
  "transform buffer chunk =
     (let buffer1 = buffer @ chunk;
          lines = split buffer1 LF;
          (popped, lines1) = pop lines;
          buffer2 = or_empty popped
      in (lines1, buffer2))"

definition flush :: "jsstring \<Rightarrow> jsstring list \<times> jsstring" where
  "flush buffer = (if buffer \<noteq> [] then [buffer] else [], buffer)"

text \<open>
  A \<open>TransformStream\<close> calls \<open>transform\<close> once for every chunk written to it, in order,
  and \<open>flush\<close> once when the writable side is closed. \<open>feed_all\<close> is the first part,
  \<open>LineBreakTransformer\<close> the whole run from the initial buffer \<open>''\<close>: the chunks read
  from the readable side.
\<close>

fun feed_all :: "jsstring \<Rightarrow> jsstring list \<Rightarrow> jsstring list \<times> jsstring" where
  "feed_all buffer [] = ([], buffer)"
| "feed_all buffer (c # cs) =
     (let (out, b1) = transform buffer c;
          (outs, b2) = feed_all b1 cs
      in (out @ outs, b2))"

definition LineBreakTransformer :: "jsstring list \<Rightarrow> jsstring list" where
  "LineBreakTransformer chunks = (let (out, b) = feed_all [] chunks in out @ fst (flush b))"

section \<open>The platform's text encoder and decoder\<close>

text \<open>
  \<open>TextEncoder\<close> and \<open>TextDecoder\<close> are the browser's, not the repository's. They are
  modelled after the algorithms of the Encoding standard and of Web IDL, with
  \<open>x mod 2 ^ k\<close> for \<open>x & (2 ^ k - 1)\<close>, \<open>x div 2 ^ k\<close> for \<open>x >> k\<close>,
  \<open>x * 2 ^ k\<close> for \<open>x << k\<close>, and \<open>+\<close> for the \<open>|\<close> of numbers without common bits.
\<close>

subsection \<open>From a string to scalar values\<close>

definition is_surrogate :: "code_unit \<Rightarrow> bool" where
  "is_surrogate c = (0xD800 \<le> unat c \<and> unat c \<le> 0xDFFF)"

definition is_leading_surrogate :: "code_unit \<Rightarrow> bool" where
  "is_leading_surrogate c = (0xD800 \<le> unat c \<and> unat c \<le> 0xDBFF)"

definition is_trailing_surrogate :: "code_unit \<Rightarrow> bool" where
  "is_trailing_surrogate c = (0xDC00 \<le> unat c \<and> unat c \<le> 0xDFFF)"

text \<open>
  Web IDL, the conversion of a string to a \<open>USVString\<close>, which \<open>encode\<close> applies to
  its argument: a code unit that is no surrogate is its own scalar value; a leading
  surrogate followed by a trailing one is the supplementary code point of the pair; every
  other surrogate becomes U+FFFD.
\<close>

fun to_scalar_values :: "jsstring \<Rightarrow> nat list" where
  "to_scalar_values [] = []"
| "to_scalar_values [c] = (if is_surrogate c then [0xFFFD] else [unat c])"
| "to_scalar_values (c # d # rest) =
     (if \<not> is_surrogate c then unat c # to_scalar_values (d # rest)
      else if is_trailing_surrogate c then 0xFFFD # to_scalar_values (d # rest)
      else if is_trailing_surrogate d
        then (0x10000 + 0x400 * (unat c mod 0x400) + unat d mod 0x400) # to_scalar_values rest
      else 0xFFFD # to_scalar_values (d # rest))"

text \<open>A scalar value: a code point that is no surrogate.\<close>

definition is_scalar_value :: "nat \<Rightarrow> bool" where
  "is_scalar_value cp = (cp \<le> 0x10FFFF \<and> \<not> (0xD800 \<le> cp \<and> cp \<le> 0xDFFF))"

subsection \<open>The UTF-8 encoder\<close>

text \<open>
  The loop of the encoder that appends the \<open>count\<close> continuation bytes
  \<open>0x80 | ((code point >> (6 * (count - 1))) & 0x3F)\<close>, \<open>count\<close> going down to 0.
\<close>

fun utf8_continuation :: "nat \<Rightarrow> nat \<Rightarrow> byte list" where
  "utf8_continuation cp 0 = []"
| "utf8_continuation cp (Suc k) =
     of_nat (0x80 + (cp div 64 ^ k) mod 64) # utf8_continuation cp k"

definition utf8_encode :: "nat \<Rightarrow> byte list" where
  "utf8_encode cp =
     (if cp \<le> 0x7F then [of_nat cp]
      else
        let (count, offset) =
              (if cp \<le> 0x7FF then (1, 0xC0)
               else if cp \<le> 0xFFFF then (2, 0xE0)
               else (3, 0xF0))
        in of_nat (cp div 64 ^ count + offset) # utf8_continuation cp count)"

text \<open>\<open>new TextEncoder().encode(s)\<close>.\<close>

definition TextEncoder_encode :: "jsstring \<Rightarrow> byte list" where
  "TextEncoder_encode s = concat (map utf8_encode (to_scalar_values s))"

subsection \<open>The UTF-8 decoder\<close>

record utf8_decoder =
  code_point :: nat
  bytes_seen :: nat
  bytes_needed :: nat
  lower_boundary :: nat
  upper_boundary :: nat

definition new_utf8_decoder :: utf8_decoder where
  "new_utf8_decoder =
     \<lparr>code_point = 0, bytes_seen = 0, bytes_needed = 0,
      lower_boundary = 0x80, upper_boundary = 0xBF\<rparr>"

datatype handler_result = Finished | Scalar nat | DecodeError | Continue

text \<open>
  The handler of the UTF-8 decoder, given the decoder and an item of the queue of bytes:
  a byte, or \<open>None\<close> for end-of-queue. It returns the decoder, its result, and whether
  it restored the byte to the front of the queue.
\<close>

definition utf8_decoder_handler ::
  "utf8_decoder \<Rightarrow> byte option \<Rightarrow> utf8_decoder \<times> handler_result \<times> bool" where
  "utf8_decoder_handler d item =
     (case item of
        None \<Rightarrow>
          if bytes_needed d \<noteq> 0 then (d\<lparr>bytes_needed := 0\<rparr>, DecodeError, False)
          else (d, Finished, False)
      | Some byte \<Rightarrow>
          let b = unat byte in
          if bytes_needed d = 0 then
            (if b \<le> 0x7F then (d, Scalar b, False)
             else if 0xC2 \<le> b \<and> b \<le> 0xDF then
               (d\<lparr>bytes_needed := 1, code_point := b mod 0x20\<rparr>, Continue, False)
             else if 0xE0 \<le> b \<and> b \<le> 0xEF then
               (let d1 = (if b = 0xE0 then d\<lparr>lower_boundary := 0xA0\<rparr> else d);
                    d2 = (if b = 0xED then d1\<lparr>upper_boundary := 0x9F\<rparr> else d1)
                in (d2\<lparr>bytes_needed := 2, code_point := b mod 0x10\<rparr>, Continue, False))
             else if 0xF0 \<le> b \<and> b \<le> 0xF4 then
               (let d1 = (if b = 0xF0 then d\<lparr>lower_boundary := 0x90\<rparr> else d);
                    d2 = (if b = 0xF4 then d1\<lparr>upper_boundary := 0x8F\<rparr> else d1)
                in (d2\<lparr>bytes_needed := 3, code_point := b mod 0x08\<rparr>, Continue, False))
             else (d, DecodeError, False))
          else if \<not> (lower_boundary d \<le> b \<and> b \<le> upper_boundary d) then
            (d\<lparr>code_point := 0, bytes_needed := 0, bytes_seen := 0,
               lower_boundary := 0x80, upper_boundary := 0xBF\<rparr>, DecodeError, True)
          else
            (let d1 = d\<lparr>lower_boundary := 0x80, upper_boundary := 0xBF,
                         code_point := code_point d * 64 + b mod 64,
                         bytes_seen := bytes_seen d + 1\<rparr>
             in if bytes_seen d1 \<noteq> bytes_needed d1 then (d1, Continue, False)
                else (d1\<lparr>code_point := 0, bytes_needed := 0, bytes_seen := 0\<rparr>,
                      Scalar (code_point d1), False)))"

text \<open>
  What processing an item pushes to the output in the error mode \<open>replacement\<close> (the
  mode of a \<open>TextDecoder\<close> constructed without \<open>fatal\<close>): the scalar value, or U+FFFD
  for an error.
\<close>

definition replacement_output :: "handler_result \<Rightarrow> nat list" where
  "replacement_output r = (case r of Scalar cp \<Rightarrow> [cp] | DecodeError \<Rightarrow> [0xFFFD] | _ \<Rightarrow> [])"

text \<open>
  The loop of \<open>decode\<close> over the bytes of the queue, up to end-of-queue: the decoder
  and the scalar values pushed to the output. A restored byte is read again.
\<close>

function process_queue :: "utf8_decoder \<Rightarrow> byte list \<Rightarrow> utf8_decoder \<times> nat list" where
  "process_queue d [] = (d, [])"
| "process_queue d (b # bs) =
     (case utf8_decoder_handler d (Some b) of
        (d1, r, restored) \<Rightarrow>
          (case process_queue d1 (if restored then b # bs else bs) of
             (d2, outs) \<Rightarrow> (d2, replacement_output r @ outs)))"
  by pat_completeness auto
termination
  by (relation "measure (\<lambda>(d, q). 2 * length q + (if bytes_needed d = 0 then 0 else 1))")
    (auto simp: utf8_decoder_handler_def Let_def split: if_splits)

text \<open>
  End-of-queue, when \<open>decode\<close> was called without \<open>stream\<close>: the handler returns an
  error for an unfinished sequence, and \<open>finished\<close> on the next reading.
\<close>

definition end_of_queue :: "utf8_decoder \<Rightarrow> utf8_decoder \<times> nat list" where
  "end_of_queue d =
     (case utf8_decoder_handler d None of
        (d1, r, restored) \<Rightarrow> (d1, replacement_output r))"

text \<open>The code units of a scalar value: itself, or its surrogate pair.\<close>

definition code_units_of :: "nat \<Rightarrow> jsstring" where
  "code_units_of cp =
     (if cp < 0x10000 then [of_nat cp]
      else [of_nat (0xD800 + (cp - 0x10000) div 0x400),
            of_nat (0xDC00 + (cp - 0x10000) mod 0x400)])"

text \<open>
  The serialisation of the output, given the flag \<open>BOM seen\<close> (\<open>ignoreBOM\<close> is false
  by default): the first scalar value ever serialised is dropped when it is U+FEFF.
\<close>

fun serialize_io_queue :: "bool \<Rightarrow> nat list \<Rightarrow> jsstring \<times> bool" where
  "serialize_io_queue seen [] = ([], seen)"
| "serialize_io_queue seen (item # rest) =
     (if \<not> seen \<and> item = 0xFEFF then serialize_io_queue True rest
      else (case serialize_io_queue True rest of
              (out, seen1) \<Rightarrow> (code_units_of item @ out, seen1)))"

text \<open>
  A \<open>TextDecoder\<close> for \<open>utf-8\<close>. Every byte pushed to its queue is read within the same
  call of \<open>decode\<close>, so the queue is empty between calls and is not part of the state.
\<close>

record TextDecoder =
  decoder :: utf8_decoder
  BOM_seen :: bool
  do_not_flush :: bool

definition new_TextDecoder :: TextDecoder where
  "new_TextDecoder = \<lparr>decoder = new_utf8_decoder, BOM_seen = False, do_not_flush = False\<rparr>"

text \<open>\<open>td.decode(input, {stream})\<close>; \<open>td.decode(input)\<close> is the call with \<open>stream\<close> false.\<close>

definition TextDecoder_decode ::
  "TextDecoder \<Rightarrow> byte list \<Rightarrow> bool \<Rightarrow> jsstring \<times> TextDecoder" where
  "TextDecoder_decode td input stream =
     (let td1 = (if \<not> do_not_flush td
                 then td\<lparr>decoder := new_utf8_decoder, BOM_seen := False\<rparr> else td);
          td2 = td1\<lparr>do_not_flush := stream\<rparr>;
          (d1, out1) = process_queue (decoder td2) input;
          (d2, out2) = (if stream then (d1, []) else end_of_queue d1);
          (text, seen) = serialize_io_queue (BOM_seen td2) (out1 @ out2)
      in (text, td2\<lparr>decoder := d2, BOM_seen := seen\<rparr>))"

section \<open>The decoding stage and the reader of \<open>src/utils/serialTransforms.ts\<close>\<close>

text \<open>
  \<open>TextDecoderStream\<close>: the state is the closure's \<open>decoder\<close>; \<open>transform\<close> enqueues
  \<open>decoder.decode(chunk, { stream: true })\<close>. The class has no \<open>flush\<close>.
\<close>

definition TextDecoderStream_transform ::
  "TextDecoder \<Rightarrow> byte list \<Rightarrow> jsstring \<times> TextDecoder" where
  "TextDecoderStream_transform td chunk = TextDecoder_decode td chunk True"

fun TextDecoderStream_from :: "TextDecoder \<Rightarrow> byte list list \<Rightarrow> jsstring list" where
  "TextDecoderStream_from td [] = []"
| "TextDecoderStream_from td (chunk # chunks) =
     (case TextDecoderStream_transform td chunk of
        (text, td1) \<Rightarrow> text # TextDecoderStream_from td1 chunks)"

definition TextDecoderStream :: "byte list list \<Rightarrow> jsstring list" where
  "TextDecoderStream chunks = TextDecoderStream_from new_TextDecoder chunks"

text \<open>
  \<open>createSerialReader\<close>, for a port that is readable: the chunks of the port piped
  through the decoding stage and the line framing, up to the end of the stream.
\<close>

definition createSerialReader :: "byte list list \<Rightarrow> jsstring list" where
  "createSerialReader chunks = LineBreakTransformer (TextDecoderStream chunks)"

section \<open>The conversions of \<open>src/utils/bleTransforms.ts\<close>\<close>

record DataView =
  buffer :: "byte list"
  byteOffset :: nat
  byteLength :: nat

text \<open>\<open>new Uint8Array(buffer, byteOffset, byteLength)\<close>: the bytes the view covers.\<close>

definition Uint8Array_of :: "byte list \<Rightarrow> nat \<Rightarrow> nat \<Rightarrow> byte list" where
  "Uint8Array_of buf offset len = take len (drop offset buf)"

definition dataViewToString :: "DataView \<Rightarrow> jsstring" where
  "dataViewToString dataView =
     fst (TextDecoder_decode new_TextDecoder
            (Uint8Array_of (buffer dataView) (byteOffset dataView) (byteLength dataView)) False)"

definition stringToUint8Array :: "jsstring \<Rightarrow> byte list" where
  "stringToUint8Array str = TextEncoder_encode str"

text \<open>The \<open>DataView\<close> over the whole of an array of bytes.\<close>

definition DataView_over :: "byte list \<Rightarrow> DataView" where
  "DataView_over bytes = \<lparr>buffer = bytes, byteOffset = 0, byteLength = length bytes\<rparr>"

text \<open>
  A string without lone surrogates: every leading surrogate is followed by a trailing one,
  and every trailing surrogate follows a leading one.
\<close>

fun well_formed :: "jsstring \<Rightarrow> bool" where
  "well_formed [] = True"
| "well_formed [c] = (\<not> is_surrogate c)"
| "well_formed (c # d # rest) =
     (if \<not> is_surrogate c then well_formed (d # rest)
      else is_leading_surrogate c \<and> is_trailing_surrogate d \<and> well_formed rest)"

definition starts_with_BOM :: "jsstring \<Rightarrow> bool" where
  "starts_with_BOM s = (case s of [] \<Rightarrow> False | c # rest \<Rightarrow> c = 0xFEFF)"

section \<open>The read loop of the application component (\<open>startReading\<close>, second variant)\<close>

text \<open>
  The code units that \<open>String.prototype.trim\<close> strips: white space and line terminators.
\<close>

definition is_white_space :: "code_unit \<Rightarrow> bool" where
  "is_white_space c =
     (c \<in> set [0x09, 0x0A, 0x0B, 0x0C, 0x0D, 0x20, 0xA0, 0x1680,
               0x2000, 0x2001, 0x2002, 0x2003, 0x2004, 0x2005, 0x2006, 0x2007, 0x2008,
               0x2009, 0x200A, 0x2028, 0x2029, 0x202F, 0x205F, 0x3000, 0xFEFF])"

definition trim :: "jsstring \<Rightarrow> jsstring" where
  "trim s = rev (dropWhile is_white_space (rev (dropWhile is_white_space s)))"

text \<open>
  The body of the loop for one chunk \<open>value\<close> that \<open>reader.read()\<close> delivered: the chunk
  is decoded by \<open>textDecoder.decode(value)\<close>, without \<open>stream\<close>, the text is split at
  \<open>'\n'\<close>, and every fragment that \<open>trim\<close> does not empty is pushed to \<open>messages\<close>.
\<close>

definition startReading_chunk ::
  "TextDecoder \<Rightarrow> byte list \<Rightarrow> jsstring list \<Rightarrow> jsstring list \<times> TextDecoder" where
  "startReading_chunk textDecoder val messages =
     (let (text, td1) = TextDecoder_decode textDecoder val False;
          lines = split text LF
      in (messages @ filter (\<lambda>line. trim line \<noteq> []) lines, td1))"

fun startReading_from :: "TextDecoder \<Rightarrow> byte list list \<Rightarrow> jsstring list \<Rightarrow> jsstring list" where
  "startReading_from textDecoder [] messages = messages"
| "startReading_from textDecoder (val # vals) messages =
     (case startReading_chunk textDecoder val messages of
        (messages1, td1) \<Rightarrow> startReading_from td1 vals messages1)"

text \<open>The messages after the loop has read the chunks, from \<open>new TextDecoder()\<close>.\<close>

definition startReading :: "byte list list \<Rightarrow> jsstring list \<Rightarrow> jsstring list" where
  "startReading vals messages = startReading_from new_TextDecoder vals messages"

section \<open>Promises and thrown values\<close>

text \<open>
  A value caught by \<open>catch (err)\<close> is an \<open>Error\<close> with its message, or something else.
  An awaited call of the platform or of the manager library resolves or rejects; which
  of the two is an input of the model.
\<close>

datatype thrown = Error string | NonError

datatype 'a outcome = Resolved 'a | Rejected thrown

text \<open>\<open>err instanceof Error ? err.message : fallback\<close>.\<close>

definition error_message :: "thrown \<Rightarrow> string \<Rightarrow> string" where
  "error_message err fallback = (case err of Error m \<Rightarrow> m | NonError \<Rightarrow> fallback)"

text \<open>Objects of the platform (ports, readers, writers, devices) are held by reference.\<close>

type_synonym handle = nat

text \<open>
  The state of a \<open>try\<close> block: \<open>Inr\<close> while it runs, \<open>Inl\<close> with the value thrown and
  the state at the throw once a statement has thrown; the statements after it are skipped.
\<close>

type_synonym 'st try_block = "thrown \<times> 'st + 'st"

definition and_then :: "'st try_block \<Rightarrow> ('st \<Rightarrow> 'st try_block) \<Rightarrow> 'st try_block" where
  "and_then r f = (case r of Inl x \<Rightarrow> Inl x | Inr st \<Rightarrow> f st)"

section \<open>The serial composable (\<open>src/composables/useSerial.ts\<close>)\<close>

record serial_state =
  port :: "handle option"
  isConnected :: bool
  error :: "string option"
  reader :: "handle option"
  writer :: "handle option"

text \<open>The calls made on the platform and on the manager library, in order.\<close>

datatype serial_call =
  ReaderCancel handle
  | WriterClose handle
  | PortClose handle
  | WriterWrite handle "byte list"
  | ManagerClosePort handle
  | ManagerWriteData handle "byte list"

text \<open>\<open>if (reader.value) { await reader.value.cancel(); reader.value = null }\<close>\<close>

definition release_reader ::
  "unit outcome \<Rightarrow> serial_state \<times> serial_call list
     \<Rightarrow> (serial_state \<times> serial_call list) try_block" where
  "release_reader cancelled st =
     (case st of (s, calls) \<Rightarrow>
        (case reader s of
           None \<Rightarrow> Inr (s, calls)
         | Some r \<Rightarrow>
             (case cancelled of
                Rejected err \<Rightarrow> Inl (err, (s, calls @ [ReaderCancel r]))
              | Resolved _ \<Rightarrow> Inr (s\<lparr>reader := None\<rparr>, calls @ [ReaderCancel r]))))"

text \<open>\<open>if (writer.value) { await writer.value.close(); writer.value = null }\<close>\<close>

definition release_writer ::
  "unit outcome \<Rightarrow> serial_state \<times> serial_call list
     \<Rightarrow> (serial_state \<times> serial_call list) try_block" where
  "release_writer closed st =
     (case st of (s, calls) \<Rightarrow>
        (case writer s of
           None \<Rightarrow> Inr (s, calls)
         | Some w \<Rightarrow>
             (case closed of
                Rejected err \<Rightarrow> Inl (err, (s, calls @ [WriterClose w]))
              | Resolved _ \<Rightarrow> Inr (s\<lparr>writer := None\<rparr>, calls @ [WriterClose w]))))"

text \<open>\<open>if (port.value) { await port.value.close(); port.value = null }\<close>\<close>

definition close_port ::
  "unit outcome \<Rightarrow> serial_state \<times> serial_call list
     \<Rightarrow> (serial_state \<times> serial_call list) try_block" where
  "close_port closed st =
     (case st of (s, calls) \<Rightarrow>
        (case port s of
           None \<Rightarrow> Inr (s, calls)
         | Some p \<Rightarrow>
             (case closed of
                Rejected err \<Rightarrow> Inl (err, (s, calls @ [PortClose p]))
              | Resolved _ \<Rightarrow> Inr (s\<lparr>port := None\<rparr>, calls @ [PortClose p]))))"

text \<open>
  \<open>disconnect\<close>: one \<open>try\<close> block around the three releases and
  \<open>isConnected.value = false\<close>, and its \<open>catch\<close>. The first three arguments are the
  outcomes of \<open>reader.cancel()\<close>, \<open>writer.close()\<close> and \<open>port.close()\<close>, read only if
  the call is made.
\<close>

definition useSerial_disconnect ::
  "unit outcome \<Rightarrow> unit outcome \<Rightarrow> unit outcome \<Rightarrow> serial_state
     \<Rightarrow> serial_state \<times> serial_call list" where
  "useSerial_disconnect reader_cancel writer_close port_close s =
     (case and_then (and_then (and_then (Inr (s\<lparr>error := None\<rparr>, []))
              (release_reader reader_cancel))
              (release_writer writer_close))
              (close_port port_close) of
        Inr (s1, calls) \<Rightarrow> (s1\<lparr>isConnected := False\<rparr>, calls)
      | Inl (err, (s1, calls)) \<Rightarrow>
          (s1\<lparr>error := Some (error_message err ''Failed to disconnect'')\<rparr>, calls))"

text \<open>\<open>write\<close>; the first argument is the outcome of \<open>writer.write(bytes)\<close>.\<close>

definition useSerial_write ::
  "unit outcome \<Rightarrow> jsstring \<Rightarrow> serial_state \<Rightarrow> serial_state \<times> serial_call list" where
  "useSerial_write written data s =
     (case writer s of
        None \<Rightarrow> (s\<lparr>error := Some ''No active connection''\<rparr>, [])
      | Some w \<Rightarrow>
          (let s1 = s\<lparr>error := None\<rparr>;
               calls = [WriterWrite w (TextEncoder_encode data)]
           in case written of
                Resolved _ \<Rightarrow> (s1, calls)
              | Rejected err \<Rightarrow>
                  (s1\<lparr>error := Some (error_message err ''Failed to write data'')\<rparr>, calls)))"

section \<open>The serial composable over the manager library (second variant of \<open>useSerial\<close>)\<close>

record serial_manager_state =
  sm_manager :: "handle option"
  sm_port :: "handle option"
  sm_isConnected :: bool
  sm_error :: "string option"
  sm_reader :: "handle option"

text \<open>
  \<open>disconnect\<close>: the reader is cancelled, then \<open>manager.closePort()\<close> is awaited, in one
  \<open>try\<close> block. The arguments are the outcomes of the two calls.
\<close>

definition useSerial_manager_disconnect ::
  "unit outcome \<Rightarrow> unit outcome \<Rightarrow> serial_manager_state
     \<Rightarrow> serial_manager_state \<times> serial_call list" where
  "useSerial_manager_disconnect reader_cancel port_close s =
     (case and_then (and_then (Inr (s\<lparr>sm_error := None\<rparr>, []))
              (\<lambda>(s1, calls).
                 case sm_reader s1 of
                   None \<Rightarrow> Inr (s1, calls)
                 | Some r \<Rightarrow>
                     (case reader_cancel of
                        Rejected err \<Rightarrow> Inl (err, (s1, calls @ [ReaderCancel r]))
                      | Resolved _ \<Rightarrow> Inr (s1\<lparr>sm_reader := None\<rparr>, calls @ [ReaderCancel r]))))
              (\<lambda>(s1, calls).
                 case sm_manager s1 of
                   None \<Rightarrow> Inr (s1, calls)
                 | Some m \<Rightarrow>
                     (case sm_port s1 of
                        None \<Rightarrow> Inr (s1, calls)
                      | Some p \<Rightarrow>
                          (case port_close of
                             Rejected err \<Rightarrow> Inl (err, (s1, calls @ [ManagerClosePort m]))
                           | Resolved _ \<Rightarrow>
                               Inr (s1\<lparr>sm_port := None\<rparr>, calls @ [ManagerClosePort m])))) of
        Inr (s1, calls) \<Rightarrow> (s1\<lparr>sm_isConnected := False\<rparr>, calls)
      | Inl (err, (s1, calls)) \<Rightarrow>
          (s1\<lparr>sm_error := Some (error_message err ''Failed to disconnect'')\<rparr>, calls))"

text \<open>\<open>write\<close>; the first argument is the outcome of \<open>manager.writeData(bytes)\<close>.\<close>

definition useSerial_manager_write ::
  "unit outcome \<Rightarrow> jsstring \<Rightarrow> serial_manager_state
     \<Rightarrow> serial_manager_state \<times> serial_call list" where
  "useSerial_manager_write written data s =
     (case sm_manager s of
        None \<Rightarrow> (s\<lparr>sm_error := Some ''No active connection''\<rparr>, [])
      | Some m \<Rightarrow>
          if \<not> sm_isConnected s then (s\<lparr>sm_error := Some ''No active connection''\<rparr>, [])
          else
            (let s1 = s\<lparr>sm_error := None\<rparr>;
                 calls = [ManagerWriteData m (TextEncoder_encode data)]
             in case written of
                  Resolved _ \<Rightarrow> (s1, calls)
                | Rejected err \<Rightarrow>
                    (s1\<lparr>sm_error := Some (error_message err ''Failed to write data'')\<rparr>,
                     calls)))"

section \<open>The Bluetooth composable (\<open>useBluetooth\<close>)\<close>

text \<open>
  A callback handed in by the caller is held by reference; \<open>ConsoleLog\<close> is the logging
  arrow function the composable puts in its place when none is given.
\<close>

type_synonym callback = nat

datatype listener = UserCallback callback | ConsoleLog

record bluetooth_state =
  bt_manager :: "handle option"
  device :: "handle option"
  bt_isConnected :: bool
  bt_error :: "string option"
  services :: "handle list"
  currentService :: "handle option"
  currentCharacteristic :: "handle option"

text \<open>
  The calls made on the manager library and on the characteristic. The two callbacks that
  \<open>connect\<close> hands to \<open>connectToServer\<close> are closures over the refs of the composable:
  functions on its state.
\<close>

datatype bluetooth_call =
  ConnectToServer handle "bluetooth_state \<Rightarrow> bluetooth_state" "bluetooth_state \<Rightarrow> bluetooth_state"
  | GetCharacteristic handle string listener
  | StartNotifications handle
  | AddEventListener handle string listener

text \<open>The first callback of \<open>connect\<close>, for the disconnection.\<close>

definition on_disconnect :: "bluetooth_state \<Rightarrow> bluetooth_state" where
  "on_disconnect t =
     t\<lparr>bt_isConnected := False, device := None, services := [],
       currentService := None, currentCharacteristic := None\<rparr>"

text \<open>The second callback of \<open>connect\<close>, which only logs.\<close>

definition on_serviceadded :: "bluetooth_state \<Rightarrow> bluetooth_state" where
  "on_serviceadded t = t"

text \<open>\<open>connect\<close>; the first argument is the outcome of \<open>manager.connectToServer(...)\<close>.\<close>

definition useBluetooth_connect ::
  "unit outcome \<Rightarrow> bluetooth_state \<Rightarrow> bluetooth_state \<times> bluetooth_call list" where
  "useBluetooth_connect connected s =
     (case bt_manager s of
        None \<Rightarrow> (s\<lparr>bt_error := Some ''No device selected''\<rparr>, [])
      | Some m \<Rightarrow>
          (case device s of
             None \<Rightarrow> (s\<lparr>bt_error := Some ''No device selected''\<rparr>, [])
           | Some dev \<Rightarrow>
               (let s1 = s\<lparr>bt_error := None\<rparr>;
                    calls = [ConnectToServer m on_disconnect on_serviceadded]
                in case connected of
                     Resolved _ \<Rightarrow> (s1\<lparr>bt_isConnected := True\<rparr>, calls)
                   | Rejected err \<Rightarrow>
                       (s1\<lparr>bt_error := Some (error_message err ''Failed to connect''),
                           bt_isConnected := False\<rparr>, calls))))"

text \<open>
  The disconnection event of the device, raised by the remote side: every disconnect
  callback registered by the calls so far runs on the state of the composable.
\<close>

fun gattserverdisconnected :: "bluetooth_call list \<Rightarrow> bluetooth_state \<Rightarrow> bluetooth_state" where
  "gattserverdisconnected [] t = t"
| "gattserverdisconnected (ConnectToServer m disconnected serviceadded # calls) t =
     gattserverdisconnected calls (disconnected t)"
| "gattserverdisconnected (c # calls) t = gattserverdisconnected calls t"

text \<open>\<open>valueChangedCallback || ((event) => console.log('Value changed:', event))\<close>\<close>

definition or_console_log :: "callback option \<Rightarrow> listener" where
  "or_console_log cb = (case cb of Some f \<Rightarrow> UserCallback f | None \<Rightarrow> ConsoleLog)"

text \<open>
  \<open>selectCharacteristic\<close>; the third argument is the outcome of
  \<open>manager.getCharacteristic(charUuid, callback)\<close>.
\<close>

definition useBluetooth_selectCharacteristic ::
  "string \<Rightarrow> callback option \<Rightarrow> handle outcome \<Rightarrow> bluetooth_state
     \<Rightarrow> bluetooth_state \<times> bluetooth_call list" where
  "useBluetooth_selectCharacteristic charUuid valueChangedCallback resolved s =
     (case bt_manager s of
        None \<Rightarrow> (s\<lparr>bt_error := Some ''No service selected''\<rparr>, [])
      | Some m \<Rightarrow>
          (case currentService s of
             None \<Rightarrow> (s\<lparr>bt_error := Some ''No service selected''\<rparr>, [])
           | Some svc \<Rightarrow>
               (let s1 = s\<lparr>bt_error := None\<rparr>;
                    calls = [GetCharacteristic m charUuid (or_console_log valueChangedCallback)]
                in case resolved of
                     Resolved c \<Rightarrow> (s1\<lparr>currentCharacteristic := Some c\<rparr>, calls)
                   | Rejected err \<Rightarrow>
                       (s1\<lparr>bt_error :=
                             Some (error_message err ''Failed to select characteristic'')\<rparr>,
                        calls))))"

text \<open>
  \<open>startNotifications\<close>; the second argument is the outcome of the platform's
  \<open>characteristic.startNotifications()\<close>, which is where a characteristic that cannot
  notify is refused: the composable has no check of its own.
\<close>

definition useBluetooth_startNotifications ::
  "callback \<Rightarrow> unit outcome \<Rightarrow> bluetooth_state \<Rightarrow> bluetooth_state \<times> bluetooth_call list" where
  "useBluetooth_startNotifications callback started s =
     (case currentCharacteristic s of
        None \<Rightarrow> (s\<lparr>bt_error := Some ''No characteristic selected''\<rparr>, [])
      | Some c \<Rightarrow>
          (let s1 = s\<lparr>bt_error := None\<rparr>
           in case started of
                Resolved _ \<Rightarrow>
                  (s1, [StartNotifications c,
                        AddEventListener c ''characteristicvaluechanged'' (UserCallback callback)])
              | Rejected err \<Rightarrow>
                  (s1\<lparr>bt_error := Some (error_message err ''Failed to start notifications'')\<rparr>,
                   [StartNotifications c])))"

text \<open>
  The listeners that the calls so far have registered on a target for a type of event, in
  the order of registration: the callbacks that run when the event is dispatched.
\<close>

fun listeners :: "bluetooth_call list \<Rightarrow> handle \<Rightarrow> string \<Rightarrow> listener list" where
  "listeners [] target type = []"
| "listeners (AddEventListener c ty f # calls) target type =
     (if c = target \<and> ty = type then f # listeners calls target type
      else listeners calls target type)"
| "listeners (c # calls) target type = listeners calls target type"

section \<open>Properties of the line framing\<close>

lemma split_from_ne: "split_from sep cur xs \<noteq> []"
  by (induction xs arbitrary: cur) auto

lemma split_from_append:
  "split_from sep cur (xs @ ys) =
     butlast (split_from sep cur xs) @ split_from sep (last (split_from sep cur xs)) ys"
  by (induction xs arbitrary: cur) (auto simp: split_from_ne)

lemma split_from_join:
  "concat (map (\<lambda>l. l @ [sep]) (butlast (split_from sep cur xs))) @ last (split_from sep cur xs)
     = cur @ xs"
  by (induction xs arbitrary: cur) (auto simp: split_from_ne)

lemma split_from_no_sep:
  "sep \<notin> set cur \<Longrightarrow> \<forall>l \<in> set (split_from sep cur xs). sep \<notin> set l"
proof (induction xs arbitrary: cur)
  case Nil
  then show ?case by simp
next
  case (Cons x xs)
  show ?case
  proof (cases "x = sep")
    case True
    with Cons.prems Cons.IH [of "[]"] show ?thesis by simp
  next
    case False
    with Cons.prems Cons.IH [of "cur @ [x]"] show ?thesis by simp
  qed
qed

lemma split_from_fixed: "sep \<notin> set xs \<Longrightarrow> split_from sep cur xs = [cur @ xs]"
  by (induction xs arbitrary: cur) auto

lemma last_split_no_sep: "sep \<notin> set (last (split_from sep [] xs))"
  using split_from_no_sep [of sep "[]" xs] split_from_ne [of sep "[]" xs]
  by (metis empty_iff empty_set last_in_set)

lemma butlast_split_no_sep: "l \<in> set (butlast (split_from sep [] xs)) \<Longrightarrow> sep \<notin> set l"
  using split_from_no_sep [of sep "[]" xs] by (auto dest: in_set_butlastD)

lemma transform_eq:
  "transform b c = (butlast (split (b @ c) LF), last (split (b @ c) LF))"
  by (simp add: transform_def pop_def or_empty_def split_def split_from_ne Let_def)

lemma feed_all_eq:
  "LF \<notin> set b \<Longrightarrow>
     feed_all b cs = (butlast (split (b @ concat cs) LF), last (split (b @ concat cs) LF))"
proof (induction cs arbitrary: b)
  case Nil
  then show ?case by (simp add: split_def split_from_fixed)
next
  case (Cons c cs)
  let ?b1 = "last (split_from LF [] (b @ c))"
  have b1: "LF \<notin> set ?b1" by (rule last_split_no_sep)
  have "split_from LF [] ((b @ c) @ concat cs) =
          butlast (split_from LF [] (b @ c)) @ split_from LF ?b1 (concat cs)"
    by (rule split_from_append)
  moreover have "split_from LF ?b1 (concat cs) = split_from LF [] (?b1 @ concat cs)"
    using split_from_append [of LF "[]" ?b1 "concat cs"] b1
    by (simp add: split_from_fixed)
  ultimately show ?case
    using Cons.IH [OF b1]
    by (simp add: transform_eq split_def split_from_ne butlast_append)
qed

text \<open>The whole run of the line framing, in terms of the split of the whole text.\<close>

lemma LineBreakTransformer_eq:
  "LineBreakTransformer chunks =
     butlast (split (concat chunks) LF) @ fst (flush (last (split (concat chunks) LF)))"
  using feed_all_eq [of "[]" chunks]
  by (simp add: LineBreakTransformer_def)

text \<open>
  C2. For every pending buffer \<open>b\<close> and chunk \<open>c\<close>, \<open>transform\<close> splits \<open>b @ c\<close> at the
  code unit \<open>'\n'\<close> and nowhere else: the lines it enqueues, each followed by \<open>'\n'\<close>,
  and then the new buffer, spell \<open>b @ c\<close> again, so every other code unit (a \<open>'\r'\<close>
  too) stays in its line; the enqueued lines are all fragments but the last, in order,
  the new buffer is the last fragment and replaces the old buffer; neither a line nor
  the new buffer holds a \<open>'\n'\<close>.
\<close>

theorem transform_splits_on_newline:
  "fst (transform b c) @ [snd (transform b c)] = split (b @ c) LF
   \<and> concat (map (\<lambda>l. l @ [LF]) (fst (transform b c))) @ snd (transform b c) = b @ c
   \<and> LF \<notin> set (snd (transform b c))
   \<and> (\<forall>l \<in> set (fst (transform b c)). LF \<notin> set l)"
proof -
  have ne: "split (b @ c) LF \<noteq> []"
    by (simp add: split_def split_from_ne)
  have "fst (transform b c) @ [snd (transform b c)] = split (b @ c) LF"
    using ne by (simp add: transform_eq)
  moreover have "concat (map (\<lambda>l. l @ [LF]) (fst (transform b c))) @ snd (transform b c) = b @ c"
    using split_from_join [of LF "[]" "b @ c"] by (simp add: transform_eq split_def)
  moreover have "LF \<notin> set (snd (transform b c))"
    by (simp add: transform_eq split_def last_split_no_sep)
  moreover have "\<forall>l \<in> set (fst (transform b c)). LF \<notin> set l"
    by (simp add: transform_eq split_def butlast_split_no_sep)
  ultimately show ?thesis by blast
qed

theorem transform_splits_on_newline_witness:
  "transform [] (js ''READY'' @ [0x0D, 0x0A]) = ([js ''READY'' @ [0x0D]], [])
   \<and> concat (map (\<lambda>l. l @ [LF]) (fst (transform [] (js ''READY'' @ [0x0D, 0x0A]))))
        @ snd (transform [] (js ''READY'' @ [0x0D, 0x0A])) = js ''READY'' @ [0x0D, 0x0A]
   \<and> LF \<notin> set (js ''READY'' @ [0x0D])"
proof -
  have ev: "transform [] (js ''READY'' @ [0x0D, 0x0A]) = ([js ''READY'' @ [0x0D]], [])"
    by (simp add: transform_def js_def split_def LF_def pop_def or_empty_def)
  show ?thesis
    using transform_splits_on_newline [of "[]" "js ''READY'' @ [0x0D, 0x0A]"] ev
    by simp
qed

text \<open>
  C9, as the code has it. \<open>flush\<close> enqueues the pending buffer as one line exactly when
  the buffer is not empty, and leaves the buffer as it is: nothing in \<open>flush\<close> assigns
  to \<open>buffer\<close>. (The stream calls \<open>flush\<close> once, when it is closed.)
\<close>

theorem flush_emits_buffer_and_keeps_it:
  "fst (flush b) = (if b = [] then [] else [b]) \<and> snd (flush b) = b"
  by (simp add: flush_def)

theorem flush_emits_buffer_and_keeps_it_witness:
  "fst (flush (js ''PART'')) = [js ''PART''] \<and> fst (flush []) = []"
  using flush_emits_buffer_and_keeps_it [of "js ''PART''"] flush_emits_buffer_and_keeps_it [of "[]"]
  by (simp add: js_def)

text \<open>
  C9, as stated, fails: after \<open>flush\<close> on the buffer \<open>PART\<close> the buffer is still
  \<open>PART\<close>, and a second \<open>flush\<close> would enqueue the line again.
\<close>

theorem flush_does_not_clear_counterexample:
  "snd (flush (js ''PART'')) = js ''PART''
   \<and> snd (flush (js ''PART'')) \<noteq> []
   \<and> fst (flush (snd (flush (js ''PART'')))) = [js ''PART'']"
  by (simp add: flush_def js_def)

section \<open>Evaluation of the encoder\<close>

lemma utf8_continuation_unroll:
  "utf8_continuation cp 1 = [of_nat (0x80 + cp mod 64)]"
  "utf8_continuation cp 2 = [of_nat (0x80 + (cp div 64) mod 64), of_nat (0x80 + cp mod 64)]"
  "utf8_continuation cp 3 = [of_nat (0x80 + (cp div 4096) mod 64),
     of_nat (0x80 + (cp div 64) mod 64), of_nat (0x80 + cp mod 64)]"
  by (simp_all add: numeral_2_eq_2 numeral_3_eq_3)

lemma utf8_encode_unroll:
  "utf8_encode cp =
     (if cp \<le> 0x7F then [of_nat cp]
      else if cp \<le> 0x7FF then [of_nat (cp div 64 + 0xC0), of_nat (0x80 + cp mod 64)]
      else if cp \<le> 0xFFFF then [of_nat (cp div 4096 + 0xE0),
             of_nat (0x80 + (cp div 64) mod 64), of_nat (0x80 + cp mod 64)]
      else [of_nat (cp div 262144 + 0xF0), of_nat (0x80 + (cp div 4096) mod 64),
             of_nat (0x80 + (cp div 64) mod 64), of_nat (0x80 + cp mod 64)])"
  by (simp add: utf8_encode_def utf8_continuation_unroll)

section \<open>Properties of the serial composable\<close>

lemma useSerial_disconnect_all_resolved:
  "useSerial_disconnect (Resolved ()) (Resolved ()) (Resolved ()) s =
     (\<lparr>port = None, isConnected = False, error = None, reader = None, writer = None\<rparr>,
      (case reader s of None \<Rightarrow> [] | Some r \<Rightarrow> [ReaderCancel r]) @
      (case writer s of None \<Rightarrow> [] | Some w \<Rightarrow> [WriterClose w]) @
      (case port s of None \<Rightarrow> [] | Some p \<Rightarrow> [PortClose p]))"
  by (cases s) (simp add: useSerial_disconnect_def and_then_def release_reader_def
      release_writer_def close_port_def split: option.splits)

lemma useSerial_disconnect_reader_rejects:
  "reader s = Some r \<Longrightarrow>
   useSerial_disconnect (Rejected e) wc pc s =
     (s\<lparr>error := Some (error_message e ''Failed to disconnect'')\<rparr>, [ReaderCancel r])"
  by (cases s) (simp add: useSerial_disconnect_def and_then_def release_reader_def
      release_writer_def close_port_def split: option.splits)

lemma useSerial_disconnect_writer_rejects:
  "writer s = Some w \<Longrightarrow> reader s = None \<or> rc = Resolved () \<Longrightarrow>
   useSerial_disconnect rc (Rejected e) pc s =
     (s\<lparr>error := Some (error_message e ''Failed to disconnect''), reader := None\<rparr>,
      (case reader s of None \<Rightarrow> [] | Some r \<Rightarrow> [ReaderCancel r]) @ [WriterClose w])"
  by (cases s) (auto simp: useSerial_disconnect_def and_then_def release_reader_def
      release_writer_def close_port_def split: option.splits)

lemma useSerial_disconnect_port_rejects:
  "port s = Some p \<Longrightarrow> reader s = None \<or> rc = Resolved () \<Longrightarrow>
   writer s = None \<or> wc = Resolved () \<Longrightarrow>
   useSerial_disconnect rc wc (Rejected e) s =
     (s\<lparr>error := Some (error_message e ''Failed to disconnect''),
        reader := None, writer := None\<rparr>,
      (case reader s of None \<Rightarrow> [] | Some r \<Rightarrow> [ReaderCancel r]) @
      (case writer s of None \<Rightarrow> [] | Some w \<Rightarrow> [WriterClose w]) @ [PortClose p])"
  by (cases s) (auto simp: useSerial_disconnect_def and_then_def release_reader_def
      release_writer_def close_port_def split: option.splits)

text \<open>The same for the variant over the manager library.\<close>

lemma useSerial_manager_disconnect_all_resolved:
  "useSerial_manager_disconnect (Resolved ()) (Resolved ()) t =
     (t\<lparr>sm_error := None, sm_reader := None,
        sm_port := (if sm_manager t = None then sm_port t else None),
        sm_isConnected := False\<rparr>,
      (case sm_reader t of None \<Rightarrow> [] | Some r \<Rightarrow> [ReaderCancel r]) @
      (case sm_manager t of None \<Rightarrow> []
       | Some m \<Rightarrow> (case sm_port t of None \<Rightarrow> [] | Some p \<Rightarrow> [ManagerClosePort m])))"
  by (cases t) (simp add: useSerial_manager_disconnect_def and_then_def split: option.splits)

lemma useSerial_manager_disconnect_reader_rejects:
  "sm_reader t = Some r \<Longrightarrow>
   useSerial_manager_disconnect (Rejected e) pc t =
     (t\<lparr>sm_error := Some (error_message e ''Failed to disconnect'')\<rparr>, [ReaderCancel r])"
  by (cases t) (simp add: useSerial_manager_disconnect_def and_then_def)

lemma useSerial_manager_disconnect_port_rejects:
  "sm_manager t = Some m \<Longrightarrow> sm_port t = Some p \<Longrightarrow> sm_reader t = None \<or> rc = Resolved () \<Longrightarrow>
   useSerial_manager_disconnect rc (Rejected e) t =
     (t\<lparr>sm_error := Some (error_message e ''Failed to disconnect''), sm_reader := None\<rparr>,
      (case sm_reader t of None \<Rightarrow> [] | Some r \<Rightarrow> [ReaderCancel r]) @ [ManagerClosePort m])"
  by (cases t) (auto simp: useSerial_manager_disconnect_def and_then_def split: option.splits)

text \<open>
  C4, as the code has it. \<open>disconnect\<close> makes the release calls in the order reader,
  writer, port, each only for a handle that is set, and stops at the first call that
  rejects. When every call resolves, the session ends closed: the three handles are
  cleared, \<open>isConnected\<close> is false and no error is recorded. When a call rejects, its
  message is recorded as the error, the handles released before it stay cleared, and the
  handle of the failing call, the handles after it and \<open>isConnected\<close> are left as they
  were: the later calls are not made. The variant over the manager library, with its two
  release calls, stops at the first failure in the same way.
\<close>

theorem useSerial_disconnect_stops_at_first_failure:
  "useSerial_disconnect (Resolved ()) (Resolved ()) (Resolved ()) s =
     (\<lparr>port = None, isConnected = False, error = None, reader = None, writer = None\<rparr>,
      (case reader s of None \<Rightarrow> [] | Some r \<Rightarrow> [ReaderCancel r]) @
      (case writer s of None \<Rightarrow> [] | Some w \<Rightarrow> [WriterClose w]) @
      (case port s of None \<Rightarrow> [] | Some p \<Rightarrow> [PortClose p]))
   \<and> (reader s = Some r \<longrightarrow>
        useSerial_disconnect (Rejected e) wc pc s =
          (s\<lparr>error := Some (error_message e ''Failed to disconnect'')\<rparr>, [ReaderCancel r]))
   \<and> (writer s = Some w \<and> (reader s = None \<or> rc = Resolved ()) \<longrightarrow>
        useSerial_disconnect rc (Rejected e) pc s =
          (s\<lparr>error := Some (error_message e ''Failed to disconnect''), reader := None\<rparr>,
           (case reader s of None \<Rightarrow> [] | Some r \<Rightarrow> [ReaderCancel r]) @ [WriterClose w]))
   \<and> (port s = Some p \<and> (reader s = None \<or> rc = Resolved ())
          \<and> (writer s = None \<or> wc = Resolved ()) \<longrightarrow>
        useSerial_disconnect rc wc (Rejected e) s =
          (s\<lparr>error := Some (error_message e ''Failed to disconnect''),
             reader := None, writer := None\<rparr>,
           (case reader s of None \<Rightarrow> [] | Some r \<Rightarrow> [ReaderCancel r]) @
           (case writer s of None \<Rightarrow> [] | Some w \<Rightarrow> [WriterClose w]) @ [PortClose p]))
   \<and> (sm_reader t = Some r \<longrightarrow>
        useSerial_manager_disconnect (Rejected e) pc t =
          (t\<lparr>sm_error := Some (error_message e ''Failed to disconnect'')\<rparr>, [ReaderCancel r]))
   \<and> (sm_manager t = Some m \<and> sm_port t = Some p \<and> (sm_reader t = None \<or> rc = Resolved ())
        \<longrightarrow>
        useSerial_manager_disconnect rc (Rejected e) t =
          (t\<lparr>sm_error := Some (error_message e ''Failed to disconnect''), sm_reader := None\<rparr>,
           (case sm_reader t of None \<Rightarrow> [] | Some r \<Rightarrow> [ReaderCancel r])
             @ [ManagerClosePort m]))"
  using useSerial_disconnect_all_resolved [of s]
    useSerial_disconnect_reader_rejects [of s r e wc pc]
    useSerial_disconnect_writer_rejects [of s w rc e pc]
    useSerial_disconnect_port_rejects [of s p rc wc e]
    useSerial_manager_disconnect_reader_rejects [of t r e pc]
    useSerial_manager_disconnect_port_rejects [of t m p rc e]
  by blast

theorem useSerial_disconnect_stops_at_first_failure_witness:
  "useSerial_disconnect (Resolved ()) (Resolved ()) (Resolved ())
     \<lparr>port = Some 1, isConnected = True, error = None, reader = Some 2, writer = Some 3\<rparr>
   = (\<lparr>port = None, isConnected = False, error = None, reader = None, writer = None\<rparr>,
      [ReaderCancel 2, WriterClose 3, PortClose 1])
   \<and> useSerial_disconnect (Rejected (Error ''stream is locked'')) (Resolved ()) (Resolved ())
     \<lparr>port = Some 1, isConnected = True, error = None, reader = Some 2, writer = Some 3\<rparr>
   = (\<lparr>port = Some 1, isConnected = True, error = Some ''stream is locked'',
        reader = Some 2, writer = Some 3\<rparr>, [ReaderCancel 2])
   \<and> useSerial_disconnect (Resolved ()) (Resolved ()) (Rejected NonError)
     \<lparr>port = Some 1, isConnected = True, error = None, reader = None, writer = Some 3\<rparr>
   = (\<lparr>port = Some 1, isConnected = True, error = Some ''Failed to disconnect'',
        reader = None, writer = None\<rparr>, [WriterClose 3, PortClose 1])"
  using useSerial_disconnect_stops_at_first_failure
      [where s = "\<lparr>port = Some 1, isConnected = True, error = None, reader = Some 2,
                   writer = Some 3\<rparr>"
         and r = 2 and e = "Error ''stream is locked''" and wc = "Resolved ()"
         and pc = "Resolved ()" and w = 3 and rc = "Resolved ()" and p = 1
         and t = "\<lparr>sm_manager = None, sm_port = None, sm_isConnected = False, sm_error = None,
                   sm_reader = None\<rparr>" and m = 7]
    useSerial_disconnect_stops_at_first_failure
      [where s = "\<lparr>port = Some 1, isConnected = True, error = None, reader = None,
                   writer = Some 3\<rparr>"
         and r = 2 and e = NonError and wc = "Resolved ()"
         and pc = "Resolved ()" and w = 3 and rc = "Resolved ()" and p = 1
         and t = "\<lparr>sm_manager = None, sm_port = None, sm_isConnected = False, sm_error = None,
                   sm_reader = None\<rparr>" and m = 7]
  by (simp add: error_message_def)

text \<open>
  C4, as stated, fails. With a reader, a writer and an open port, and \<open>writer.close()\<close>
  rejecting: \<open>port.close()\<close> is never called, the writer and the port stay set, and
  \<open>isConnected\<close> stays true.
\<close>

theorem useSerial_disconnect_writer_failure_counterexample:
  "useSerial_disconnect (Resolved ()) (Rejected (Error ''stream is locked'')) (Resolved ())
     \<lparr>port = Some 1, isConnected = True, error = None, reader = Some 2, writer = Some 3\<rparr>
   = (\<lparr>port = Some 1, isConnected = True, error = Some ''stream is locked'',
        reader = None, writer = Some 3\<rparr>,
      [ReaderCancel 2, WriterClose 3])"
  by (simp add: useSerial_disconnect_def and_then_def release_reader_def release_writer_def
      close_port_def error_message_def)

text \<open>
  C6. Without a writer handle (in the variant over the manager library: without a manager
  or while not connected), \<open>write\<close> records the error \<open>No active connection\<close>, makes no
  call, so writes no byte, throws nothing and changes nothing else of the state. With
  one, it makes exactly one write call, whose bytes are the UTF-8 encoding of the text
  as \<open>TextEncoder\<close> gives it, with nothing appended; when the call resolves, the state
  changes only in that the error is cleared.
\<close>

theorem useSerial_write_contract:
  "(writer s = None \<longrightarrow>
      useSerial_write written data s = (s\<lparr>error := Some ''No active connection''\<rparr>, []))
   \<and> (writer s = Some w \<longrightarrow>
      snd (useSerial_write written data s) = [WriterWrite w (TextEncoder_encode data)]
      \<and> useSerial_write (Resolved ()) data s =
          (s\<lparr>error := None\<rparr>, [WriterWrite w (TextEncoder_encode data)]))
   \<and> (sm_manager t = None \<or> \<not> sm_isConnected t \<longrightarrow>
      useSerial_manager_write written data t =
        (t\<lparr>sm_error := Some ''No active connection''\<rparr>, []))
   \<and> (sm_manager t = Some m \<and> sm_isConnected t \<longrightarrow>
      snd (useSerial_manager_write written data t) = [ManagerWriteData m (TextEncoder_encode data)]
      \<and> useSerial_manager_write (Resolved ()) data t =
          (t\<lparr>sm_error := None\<rparr>, [ManagerWriteData m (TextEncoder_encode data)]))"
  by (cases written)
    (auto simp: useSerial_write_def useSerial_manager_write_def Let_def split: option.splits)

theorem useSerial_write_contract_witness:
  "useSerial_write (Resolved ()) (js ''AT'')
     \<lparr>port = Some 1, isConnected = True, error = None, reader = None, writer = None\<rparr>
   = (\<lparr>port = Some 1, isConnected = True, error = Some ''No active connection'',
        reader = None, writer = None\<rparr>, [])
   \<and> useSerial_write (Resolved ()) (js ''AT'')
     \<lparr>port = Some 1, isConnected = True, error = Some ''old'', reader = None, writer = Some 3\<rparr>
   = (\<lparr>port = Some 1, isConnected = True, error = None, reader = None, writer = Some 3\<rparr>,
      [WriterWrite 3 [0x41, 0x54]])
   \<and> useSerial_manager_write (Resolved ()) (js ''AT'')
     \<lparr>sm_manager = Some 7, sm_port = Some 1, sm_isConnected = False, sm_error = None,
      sm_reader = None\<rparr>
   = (\<lparr>sm_manager = Some 7, sm_port = Some 1, sm_isConnected = False,
        sm_error = Some ''No active connection'', sm_reader = None\<rparr>, [])
   \<and> useSerial_manager_write (Resolved ()) (js ''AT'')
     \<lparr>sm_manager = Some 7, sm_port = Some 1, sm_isConnected = True, sm_error = None,
      sm_reader = None\<rparr>
   = (\<lparr>sm_manager = Some 7, sm_port = Some 1, sm_isConnected = True, sm_error = None,
        sm_reader = None\<rparr>, [ManagerWriteData 7 [0x41, 0x54]])"
proof -
  have enc: "TextEncoder_encode (js ''AT'') = [0x41, 0x54]"
    by (simp add: TextEncoder_encode_def js_def utf8_encode_unroll is_surrogate_def)
  show ?thesis
    using useSerial_write_contract
        [of "\<lparr>port = Some 1, isConnected = True, error = None, reader = None, writer = None\<rparr>"
            "Resolved ()" "js ''AT''" 3
            "\<lparr>sm_manager = Some 7, sm_port = Some 1, sm_isConnected = False, sm_error = None,
              sm_reader = None\<rparr>" 7]
      useSerial_write_contract
        [of "\<lparr>port = Some 1, isConnected = True, error = Some ''old'', reader = None,
              writer = Some 3\<rparr>"
            "Resolved ()" "js ''AT''" 3
            "\<lparr>sm_manager = Some 7, sm_port = Some 1, sm_isConnected = True, sm_error = None,
              sm_reader = None\<rparr>" 7]
    by (simp add: enc)
qed

section \<open>Properties of the Bluetooth composable\<close>

text \<open>
  C5. With a manager and a device, \<open>connect\<close> hands \<open>connectToServer\<close> a disconnect
  callback. When the remote side disconnects and the callback runs, on whatever state
  the composable is in by then, the list of services becomes empty, the selected service
  and the selected characteristic become null and \<open>isConnected\<close> becomes false; the
  callback also clears the device and changes nothing else. No call of \<open>disconnect()\<close>
  is involved: the callback is the one that \<open>connect\<close> itself hands over.
\<close>

theorem connect_registers_resetting_disconnect_listener:
  assumes "bt_manager s = Some m" and "device s = Some dev"
  shows "snd (useBluetooth_connect connected s) = [ConnectToServer m on_disconnect on_serviceadded]
    \<and> gattserverdisconnected (snd (useBluetooth_connect connected s)) t =
        t\<lparr>bt_isConnected := False, device := None, services := [],
          currentService := None, currentCharacteristic := None\<rparr>
    \<and> services (gattserverdisconnected (snd (useBluetooth_connect connected s)) t) = []
    \<and> currentService (gattserverdisconnected (snd (useBluetooth_connect connected s)) t) = None
    \<and> currentCharacteristic (gattserverdisconnected (snd (useBluetooth_connect connected s)) t)
        = None
    \<and> \<not> bt_isConnected (gattserverdisconnected (snd (useBluetooth_connect connected s)) t)"
  using assms
  by (cases connected) (simp_all add: useBluetooth_connect_def on_disconnect_def)

theorem connect_registers_resetting_disconnect_listener_witness:
  "gattserverdisconnected
     (snd (useBluetooth_connect (Resolved ())
        \<lparr>bt_manager = Some 1, device = Some 2, bt_isConnected = False, bt_error = None,
         services = [], currentService = None, currentCharacteristic = None\<rparr>))
     \<lparr>bt_manager = Some 1, device = Some 2, bt_isConnected = True, bt_error = None,
      services = [10, 11], currentService = Some 10, currentCharacteristic = Some 20\<rparr>
   = \<lparr>bt_manager = Some 1, device = None, bt_isConnected = False, bt_error = None,
      services = [], currentService = None, currentCharacteristic = None\<rparr>"
proof -
  let ?s = "\<lparr>bt_manager = Some 1, device = Some 2, bt_isConnected = False, bt_error = None,
         services = [], currentService = None, currentCharacteristic = None\<rparr>"
  have m: "bt_manager ?s = Some 1" and d: "device ?s = Some 2"
    by simp_all
  show ?thesis
    using connect_registers_resetting_disconnect_listener [OF m d, of "Resolved ()"
        "\<lparr>bt_manager = Some 1, device = Some 2, bt_isConnected = True, bt_error = None,
      services = [10, 11], currentService = Some 10, currentCharacteristic = Some 20\<rparr>"]
    by (simp add: on_disconnect_def)
qed

text \<open>
  C7. In a state with a selected service, a \<open>selectCharacteristic\<close> that fails (the
  resolution of the identifier rejects, as it does for an identifier of another service,
  or there is no manager) records an error and changes nothing else: the selected service
  and the selected characteristic are what they were. The failure is recoverable: a
  later \<open>selectCharacteristic\<close> that resolves selects its characteristic and clears the
  error, under the same service.
\<close>

theorem failed_selectCharacteristic_keeps_selection:
  assumes "currentService s = Some svc"
    and "bt_manager s = None \<or> resolved = Rejected err"
  shows "fst (useBluetooth_selectCharacteristic charUuid cb resolved s) =
           s\<lparr>bt_error := Some (if bt_manager s = None then ''No service selected''
                                else error_message err ''Failed to select characteristic'')\<rparr>
    \<and> currentService (fst (useBluetooth_selectCharacteristic charUuid cb resolved s)) = Some svc
    \<and> currentCharacteristic (fst (useBluetooth_selectCharacteristic charUuid cb resolved s))
        = currentCharacteristic s
    \<and> bt_error (fst (useBluetooth_selectCharacteristic charUuid cb resolved s)) \<noteq> None
    \<and> (bt_manager s = Some m \<longrightarrow>
         fst (useBluetooth_selectCharacteristic charUuid2 cb2 (Resolved c)
                (fst (useBluetooth_selectCharacteristic charUuid cb resolved s)))
           = s\<lparr>bt_error := None, currentCharacteristic := Some c\<rparr>)"
  using assms
  by (auto simp: useBluetooth_selectCharacteristic_def split: option.splits)

theorem failed_selectCharacteristic_keeps_selection_witness:
  "fst (useBluetooth_selectCharacteristic ''2a19'' None (Rejected (Error ''NotFoundError''))
     \<lparr>bt_manager = Some 1, device = Some 2, bt_isConnected = True, bt_error = None,
      services = [10, 11], currentService = Some 10, currentCharacteristic = Some 20\<rparr>)
   = \<lparr>bt_manager = Some 1, device = Some 2, bt_isConnected = True,
      bt_error = Some ''NotFoundError'',
      services = [10, 11], currentService = Some 10, currentCharacteristic = Some 20\<rparr>"
proof -
  let ?s = "\<lparr>bt_manager = Some 1, device = Some 2, bt_isConnected = True, bt_error = None,
      services = [10, 11], currentService = Some 10, currentCharacteristic = Some 20\<rparr>"
  have svc: "currentService ?s = Some 10"
    by simp
  have failed: "bt_manager ?s = None \<or> Rejected (Error ''NotFoundError'') = Rejected (Error ''NotFoundError'')"
    by simp
  show ?thesis
    using failed_selectCharacteristic_keeps_selection [OF svc failed, of "''2a19''" None 1 "''x''" None 21]
    by (simp add: error_message_def)
qed

text \<open>
  C8. With a selected characteristic, when the platform's \<open>startNotifications()\<close>
  rejects, as it does with a not-supported error for a characteristic that cannot notify,
  \<open>startNotifications\<close> records the message of the error, makes no \<open>addEventListener\<close>
  call, so that no change listener of its own is there to run on a value change, and
  leaves the selected characteristic selected. The listener is registered only after the
  call has resolved: then, and only then, exactly one \<open>addEventListener\<close> call follows
  the start call.
\<close>

theorem startNotifications_registers_listener_only_after_start:
  assumes "currentCharacteristic s = Some c"
  shows "useBluetooth_startNotifications cb (Rejected err) s =
           (s\<lparr>bt_error := Some (error_message err ''Failed to start notifications'')\<rparr>,
            [StartNotifications c])
    \<and> listeners (snd (useBluetooth_startNotifications cb (Rejected err) s))
          c ''characteristicvaluechanged'' = []
    \<and> currentCharacteristic (fst (useBluetooth_startNotifications cb (Rejected err) s)) = Some c
    \<and> useBluetooth_startNotifications cb (Resolved ()) s =
           (s\<lparr>bt_error := None\<rparr>,
            [StartNotifications c,
             AddEventListener c ''characteristicvaluechanged'' (UserCallback cb)])
    \<and> (listeners (snd (useBluetooth_startNotifications cb started s))
          c ''characteristicvaluechanged'' \<noteq> [] \<longrightarrow> started = Resolved ())"
  using assms
  by (cases started) (simp_all add: useBluetooth_startNotifications_def)

theorem startNotifications_registers_listener_only_after_start_witness:
  "useBluetooth_startNotifications 5 (Rejected (Error ''NotSupportedError''))
     \<lparr>bt_manager = Some 1, device = Some 2, bt_isConnected = True, bt_error = None,
      services = [10, 11], currentService = Some 10, currentCharacteristic = Some 20\<rparr>
   = (\<lparr>bt_manager = Some 1, device = Some 2, bt_isConnected = True,
       bt_error = Some ''NotSupportedError'',
       services = [10, 11], currentService = Some 10, currentCharacteristic = Some 20\<rparr>,
      [StartNotifications 20])
   \<and> listeners (snd (useBluetooth_startNotifications 5 (Rejected (Error ''NotSupportedError''))
     \<lparr>bt_manager = Some 1, device = Some 2, bt_isConnected = True, bt_error = None,
      services = [10, 11], currentService = Some 10, currentCharacteristic = Some 20\<rparr>))
        20 ''characteristicvaluechanged'' = []"
proof -
  let ?s = "\<lparr>bt_manager = Some 1, device = Some 2, bt_isConnected = True, bt_error = None,
      services = [10, 11], currentService = Some 10, currentCharacteristic = Some 20\<rparr>"
  have sel: "currentCharacteristic ?s = Some 20"
    by simp
  show ?thesis
    using startNotifications_registers_listener_only_after_start
        [OF sel, of 5 "Error ''NotSupportedError''" "Resolved ()"]
    by (simp add: error_message_def)
qed

section \<open>Properties of the text encoder and decoder\<close>

lemma unat_byte: "x < 256 \<Longrightarrow> unat (of_nat x :: byte) = x"
  by (simp add: unat_of_nat)

lemma handler_ascii:
  "unat b \<le> 0x7F \<Longrightarrow>
   utf8_decoder_handler new_utf8_decoder (Some b) = (new_utf8_decoder, Scalar (unat b), False)"
  by (simp add: utf8_decoder_handler_def new_utf8_decoder_def)

lemma handler_lead2:
  "0xC2 \<le> unat b \<Longrightarrow> unat b \<le> 0xDF \<Longrightarrow>
   utf8_decoder_handler new_utf8_decoder (Some b) =
     (new_utf8_decoder\<lparr>bytes_needed := 1, code_point := unat b mod 0x20\<rparr>, Continue, False)"
  by (simp add: utf8_decoder_handler_def new_utf8_decoder_def)

lemma handler_lead3:
  "0xE0 \<le> unat b \<Longrightarrow> unat b \<le> 0xEF \<Longrightarrow>
   utf8_decoder_handler new_utf8_decoder (Some b) =
     (new_utf8_decoder\<lparr>lower_boundary := (if unat b = 0xE0 then 0xA0 else 0x80),
        upper_boundary := (if unat b = 0xED then 0x9F else 0xBF),
        bytes_needed := 2, code_point := unat b mod 0x10\<rparr>, Continue, False)"
  by (simp add: utf8_decoder_handler_def new_utf8_decoder_def)

lemma handler_lead4:
  "0xF0 \<le> unat b \<Longrightarrow> unat b \<le> 0xF4 \<Longrightarrow>
   utf8_decoder_handler new_utf8_decoder (Some b) =
     (new_utf8_decoder\<lparr>lower_boundary := (if unat b = 0xF0 then 0x90 else 0x80),
        upper_boundary := (if unat b = 0xF4 then 0x8F else 0xBF),
        bytes_needed := 3, code_point := unat b mod 0x08\<rparr>, Continue, False)"
  by (simp add: utf8_decoder_handler_def new_utf8_decoder_def)

lemma handler_continuation:
  "bytes_needed d \<noteq> 0 \<Longrightarrow> lower_boundary d \<le> unat b \<Longrightarrow> unat b \<le> upper_boundary d \<Longrightarrow>
   utf8_decoder_handler d (Some b) =
     (if bytes_seen d + 1 \<noteq> bytes_needed d
      then (d\<lparr>lower_boundary := 0x80, upper_boundary := 0xBF,
              code_point := code_point d * 64 + unat b mod 64,
              bytes_seen := bytes_seen d + 1\<rparr>, Continue, False)
      else (d\<lparr>lower_boundary := 0x80, upper_boundary := 0xBF,
              code_point := 0, bytes_seen := 0, bytes_needed := 0\<rparr>,
            Scalar (code_point d * 64 + unat b mod 64), False))"
  by (simp add: utf8_decoder_handler_def Let_def)

lemma mod_shift: "(x::nat) < k \<Longrightarrow> (x + m * k) mod k = x"
  by simp

lemma two_byte_arith:
  fixes cp :: nat
  assumes "0x80 \<le> cp" "cp \<le> 0x7FF"
  shows "cp div 64 + 0xC0 < 256" "0xC2 \<le> cp div 64 + 0xC0" "cp div 64 + 0xC0 \<le> 0xDF"
    "(cp div 64 + 0xC0) mod 0x20 = cp div 64"
    "0x80 + cp mod 64 < 256" "0x80 \<le> 0x80 + cp mod 64" "0x80 + cp mod 64 \<le> 0xBF"
    "(0x80 + cp mod 64) mod 64 = cp mod 64"
    "cp div 64 * 64 + cp mod 64 = cp"
proof -
  have q: "cp div 64 < 32" using assms by linarith
  show "(cp div 64 + 0xC0) mod 0x20 = cp div 64"
    using mod_shift [OF q, of 6] by simp
  have r: "cp mod 64 < 64" by simp
  show "(0x80 + cp mod 64) mod 64 = cp mod 64"
    using mod_shift [OF r, of 2] by (simp add: add.commute)
  show "cp div 64 + 0xC0 < 256" "0xC2 \<le> cp div 64 + 0xC0" "cp div 64 + 0xC0 \<le> 0xDF"
    using assms by linarith+
  show "0x80 + cp mod 64 < 256" "0x80 \<le> 0x80 + cp mod 64" "0x80 + cp mod 64 \<le> 0xBF"
    using r by linarith+
  show "cp div 64 * 64 + cp mod 64 = cp" by simp
qed

lemma three_byte_arith:
  fixes cp :: nat
  assumes "0x800 \<le> cp" "cp \<le> 0xFFFF"
  shows "cp div 4096 + 0xE0 < 256" "0xE0 \<le> cp div 4096 + 0xE0" "cp div 4096 + 0xE0 \<le> 0xEF"
    "(cp div 4096 + 0xE0) mod 0x10 = cp div 4096"
    "0x80 + (cp div 64) mod 64 < 256" "0x80 \<le> 0x80 + (cp div 64) mod 64"
    "0x80 + (cp div 64) mod 64 \<le> 0xBF"
    "(0x80 + (cp div 64) mod 64) mod 64 = (cp div 64) mod 64"
    "cp div 4096 * 64 + (cp div 64) mod 64 = cp div 64"
    "cp div 4096 + 0xE0 = 0xE0 \<Longrightarrow> 0xA0 \<le> 0x80 + (cp div 64) mod 64"
    "cp div 4096 + 0xE0 = 0xED \<Longrightarrow> \<not> (0xD800 \<le> cp \<and> cp \<le> 0xDFFF) \<Longrightarrow> 0x80 + (cp div 64) mod 64 \<le> 0x9F"
proof -
  have t: "cp div 4096 < 16" using assms by linarith
  have tq: "cp div 4096 = cp div 64 div 64"
    using div_mult2_eq [of cp 64 64] by simp
  have m: "(cp div 64) mod 64 < 64" by simp
  show "(cp div 4096 + 0xE0) mod 0x10 = cp div 4096"
    using mod_shift [OF t, of 14] by simp
  show "(0x80 + (cp div 64) mod 64) mod 64 = (cp div 64) mod 64"
    using mod_shift [OF m, of 2] by (simp add: add.commute)
  show "cp div 4096 + 0xE0 < 256" "0xE0 \<le> cp div 4096 + 0xE0" "cp div 4096 + 0xE0 \<le> 0xEF"
    using t by linarith+
  show "0x80 + (cp div 64) mod 64 < 256" "0x80 \<le> 0x80 + (cp div 64) mod 64"
    "0x80 + (cp div 64) mod 64 \<le> 0xBF"
    using m by linarith+
  show split: "cp div 4096 * 64 + (cp div 64) mod 64 = cp div 64"
    by (simp add: tq)
  show "cp div 4096 + 0xE0 = 0xE0 \<Longrightarrow> 0xA0 \<le> 0x80 + (cp div 64) mod 64"
  proof -
    assume "cp div 4096 + 0xE0 = 0xE0"
    then have "(cp div 64) mod 64 = cp div 64" using split by simp
    moreover have "32 \<le> cp div 64" using assms by linarith
    ultimately show ?thesis by linarith
  qed
  show "cp div 4096 + 0xE0 = 0xED \<Longrightarrow> \<not> (0xD800 \<le> cp \<and> cp \<le> 0xDFFF) \<Longrightarrow> 0x80 + (cp div 64) mod 64 \<le> 0x9F"
  proof -
    assume a: "cp div 4096 + 0xE0 = 0xED" and b: "\<not> (0xD800 \<le> cp \<and> cp \<le> 0xDFFF)"
    from a have t13: "cp div 4096 = 13" by linarith
    then have "cp < 0xE000" by linarith
    with b have "cp < 0xD800" by linarith
    then have "cp div 64 < 864" by linarith
    with split t13 show ?thesis by linarith
  qed
qed

lemma four_byte_arith:
  fixes cp :: nat
  assumes "0x10000 \<le> cp" "cp \<le> 0x10FFFF"
  shows "cp div 262144 + 0xF0 < 256" "0xF0 \<le> cp div 262144 + 0xF0" "cp div 262144 + 0xF0 \<le> 0xF4"
    "(cp div 262144 + 0xF0) mod 0x08 = cp div 262144"
    "0x80 + (cp div 4096) mod 64 < 256" "0x80 \<le> 0x80 + (cp div 4096) mod 64"
    "0x80 + (cp div 4096) mod 64 \<le> 0xBF"
    "(0x80 + (cp div 4096) mod 64) mod 64 = (cp div 4096) mod 64"
    "cp div 262144 * 64 + (cp div 4096) mod 64 = cp div 4096"
    "cp div 262144 + 0xF0 = 0xF0 \<Longrightarrow> 0x90 \<le> 0x80 + (cp div 4096) mod 64"
    "cp div 262144 + 0xF0 = 0xF4 \<Longrightarrow> 0x80 + (cp div 4096) mod 64 \<le> 0x8F"
proof -
  have t: "cp div 262144 < 5" using assms by linarith
  have tq: "cp div 262144 = cp div 4096 div 64"
    using div_mult2_eq [of cp 4096 64] by simp
  have m: "(cp div 4096) mod 64 < 64" by simp
  show "(cp div 262144 + 0xF0) mod 0x08 = cp div 262144"
    using mod_shift [of "cp div 262144" 8 30] t by simp
  show "(0x80 + (cp div 4096) mod 64) mod 64 = (cp div 4096) mod 64"
    using mod_shift [OF m, of 2] by (simp add: add.commute)
  show "cp div 262144 + 0xF0 < 256" "0xF0 \<le> cp div 262144 + 0xF0" "cp div 262144 + 0xF0 \<le> 0xF4"
    using t by linarith+
  show "0x80 + (cp div 4096) mod 64 < 256" "0x80 \<le> 0x80 + (cp div 4096) mod 64"
    "0x80 + (cp div 4096) mod 64 \<le> 0xBF"
    using m by linarith+
  show split: "cp div 262144 * 64 + (cp div 4096) mod 64 = cp div 4096"
    by (simp add: tq)
  show "cp div 262144 + 0xF0 = 0xF0 \<Longrightarrow> 0x90 \<le> 0x80 + (cp div 4096) mod 64"
  proof -
    assume "cp div 262144 + 0xF0 = 0xF0"
    then have "(cp div 4096) mod 64 = cp div 4096" using split by simp
    moreover have "16 \<le> cp div 4096" using assms by linarith
    ultimately show ?thesis by linarith
  qed
  show "cp div 262144 + 0xF0 = 0xF4 \<Longrightarrow> 0x80 + (cp div 4096) mod 64 \<le> 0x8F"
  proof -
    assume "cp div 262144 + 0xF0 = 0xF4"
    then have t4: "cp div 262144 = 4" by linarith
    have "cp div 4096 < 272" using assms by linarith
    with split t4 show ?thesis by linarith
  qed
qed


lemma process_queue_step:
  "utf8_decoder_handler d (Some b) = (d1, r, False) \<Longrightarrow>
   process_queue d (b # bs) =
     (case process_queue d1 bs of (d2, outs) \<Rightarrow> (d2, replacement_output r @ outs))"
  by simp

lemma decode_encode_1:
  assumes "cp \<le> 0x7F"
  shows "process_queue new_utf8_decoder (utf8_encode cp @ bs) =
           (case process_queue new_utf8_decoder bs of (d, outs) \<Rightarrow> (d, cp # outs))"
proof -
  have u: "unat (of_nat cp :: byte) = cp"
    using assms by (intro unat_byte) linarith
  have "utf8_decoder_handler new_utf8_decoder (Some (of_nat cp)) =
          (new_utf8_decoder, Scalar cp, False)"
    using handler_ascii [of "of_nat cp"] assms by (simp only: u)
  from process_queue_step [OF this] show ?thesis
    using assms by (simp add: utf8_encode_unroll replacement_output_def)
qed

text \<open>
  The handler on the bytes of an encoded scalar value, byte by byte: every byte but the
  last leaves the decoder waiting for more, the last one gives the scalar value back and
  leaves a decoder as new.
\<close>

lemma two_byte_handlers:
  assumes u1: "unat b1 = cp div 64 + 0xC0" and u2: "unat b2 = 0x80 + cp mod 64"
    and range: "0x80 \<le> cp" "cp \<le> 0x7FF"
  shows "utf8_decoder_handler new_utf8_decoder (Some b1) =
           (new_utf8_decoder\<lparr>bytes_needed := 1, code_point := cp div 64\<rparr>, Continue, False)"
    and "utf8_decoder_handler (new_utf8_decoder\<lparr>bytes_needed := 1, code_point := cp div 64\<rparr>)
           (Some b2) = (new_utf8_decoder, Scalar cp, False)"
proof -
  note ar = two_byte_arith [OF range]
  let ?d1 = "new_utf8_decoder\<lparr>bytes_needed := 1, code_point := cp div 64\<rparr>"
  show "utf8_decoder_handler new_utf8_decoder (Some b1) = (?d1, Continue, False)"
    using handler_lead2 [of b1] ar(2,3,4) by (simp only: u1)
  show "utf8_decoder_handler ?d1 (Some b2) = (new_utf8_decoder, Scalar cp, False)"
    using handler_continuation [of ?d1 b2] ar(6,7,8,9)
    by (simp add: u2 new_utf8_decoder_def)
qed

lemma three_byte_handlers:
  assumes u1: "unat b1 = cp div 4096 + 0xE0" and u2: "unat b2 = 0x80 + (cp div 64) mod 64"
    and u3: "unat b3 = 0x80 + cp mod 64"
    and range: "0x800 \<le> cp" "cp \<le> 0xFFFF" and ns: "\<not> (0xD800 \<le> cp \<and> cp \<le> 0xDFFF)"
  shows "utf8_decoder_handler new_utf8_decoder (Some b1) =
           (new_utf8_decoder\<lparr>lower_boundary := (if unat b1 = 0xE0 then 0xA0 else 0x80),
              upper_boundary := (if unat b1 = 0xED then 0x9F else 0xBF),
              bytes_needed := 2, code_point := cp div 4096\<rparr>, Continue, False)"
    and "utf8_decoder_handler
           (new_utf8_decoder\<lparr>lower_boundary := (if unat b1 = 0xE0 then 0xA0 else 0x80),
              upper_boundary := (if unat b1 = 0xED then 0x9F else 0xBF),
              bytes_needed := 2, code_point := cp div 4096\<rparr>) (Some b2) =
           (new_utf8_decoder\<lparr>bytes_needed := 2, code_point := cp div 64, bytes_seen := 1\<rparr>,
            Continue, False)"
    and "utf8_decoder_handler
           (new_utf8_decoder\<lparr>bytes_needed := 2, code_point := cp div 64, bytes_seen := 1\<rparr>)
           (Some b3) = (new_utf8_decoder, Scalar cp, False)"
proof -
  note ar = three_byte_arith [OF range]
  let ?d1 = "new_utf8_decoder\<lparr>lower_boundary := (if unat b1 = 0xE0 then 0xA0 else 0x80),
        upper_boundary := (if unat b1 = 0xED then 0x9F else 0xBF),
        bytes_needed := 2, code_point := cp div 4096\<rparr>"
  let ?d2 = "new_utf8_decoder\<lparr>bytes_needed := 2, code_point := cp div 64, bytes_seen := 1\<rparr>"
  show "utf8_decoder_handler new_utf8_decoder (Some b1) = (?d1, Continue, False)"
    using handler_lead3 [of b1] ar(2,3,4) by (simp only: u1)
  have lo: "lower_boundary ?d1 \<le> unat b2"
    using ar(6,10) by (simp add: u1 u2 new_utf8_decoder_def)
  have hi: "unat b2 \<le> upper_boundary ?d1"
    using ar(7) ar(11) ns by (simp add: u1 u2 new_utf8_decoder_def)
  show "utf8_decoder_handler ?d1 (Some b2) = (?d2, Continue, False)"
    using handler_continuation [of ?d1 b2, OF _ lo hi] ar(8,9)
    by (simp add: u2 new_utf8_decoder_def)
  have r: "cp mod 64 < 64" by simp
  have m3: "(0x80 + cp mod 64) mod 64 = cp mod 64"
    using mod_shift [OF r, of 2] by (simp add: add.commute)
  show "utf8_decoder_handler ?d2 (Some b3) = (new_utf8_decoder, Scalar cp, False)"
    using handler_continuation [of ?d2 b3] r m3
    by (simp add: u3 new_utf8_decoder_def)
qed

lemma four_byte_handlers:
  assumes u1: "unat b1 = cp div 262144 + 0xF0" and u2: "unat b2 = 0x80 + (cp div 4096) mod 64"
    and u3: "unat b3 = 0x80 + (cp div 64) mod 64" and u4: "unat b4 = 0x80 + cp mod 64"
    and range: "0x10000 \<le> cp" "cp \<le> 0x10FFFF"
  shows "utf8_decoder_handler new_utf8_decoder (Some b1) =
           (new_utf8_decoder\<lparr>lower_boundary := (if unat b1 = 0xF0 then 0x90 else 0x80),
              upper_boundary := (if unat b1 = 0xF4 then 0x8F else 0xBF),
              bytes_needed := 3, code_point := cp div 262144\<rparr>, Continue, False)"
    and "utf8_decoder_handler
           (new_utf8_decoder\<lparr>lower_boundary := (if unat b1 = 0xF0 then 0x90 else 0x80),
              upper_boundary := (if unat b1 = 0xF4 then 0x8F else 0xBF),
              bytes_needed := 3, code_point := cp div 262144\<rparr>) (Some b2) =
           (new_utf8_decoder\<lparr>bytes_needed := 3, code_point := cp div 4096, bytes_seen := 1\<rparr>,
            Continue, False)"
    and "utf8_decoder_handler
           (new_utf8_decoder\<lparr>bytes_needed := 3, code_point := cp div 4096, bytes_seen := 1\<rparr>)
           (Some b3) =
           (new_utf8_decoder\<lparr>bytes_needed := 3, code_point := cp div 64, bytes_seen := 2\<rparr>,
            Continue, False)"
    and "utf8_decoder_handler
           (new_utf8_decoder\<lparr>bytes_needed := 3, code_point := cp div 64, bytes_seen := 2\<rparr>)
           (Some b4) = (new_utf8_decoder, Scalar cp, False)"
proof -
  note ar = four_byte_arith [OF range]
  let ?d1 = "new_utf8_decoder\<lparr>lower_boundary := (if unat b1 = 0xF0 then 0x90 else 0x80),
        upper_boundary := (if unat b1 = 0xF4 then 0x8F else 0xBF),
        bytes_needed := 3, code_point := cp div 262144\<rparr>"
  let ?d2 = "new_utf8_decoder\<lparr>bytes_needed := 3, code_point := cp div 4096, bytes_seen := 1\<rparr>"
  let ?d3 = "new_utf8_decoder\<lparr>bytes_needed := 3, code_point := cp div 64, bytes_seen := 2\<rparr>"
  show "utf8_decoder_handler new_utf8_decoder (Some b1) = (?d1, Continue, False)"
    using handler_lead4 [of b1] ar(2,3,4) by (simp only: u1)
  have lo: "lower_boundary ?d1 \<le> unat b2"
    using ar(6,10) by (simp add: u1 u2 new_utf8_decoder_def)
  have hi: "unat b2 \<le> upper_boundary ?d1"
    using ar(7,11) by (simp add: u1 u2 new_utf8_decoder_def)
  show "utf8_decoder_handler ?d1 (Some b2) = (?d2, Continue, False)"
    using handler_continuation [of ?d1 b2, OF _ lo hi] ar(8,9)
    by (simp add: u2 new_utf8_decoder_def)
  have m: "(cp div 64) mod 64 < 64" by simp
  have m2: "(0x80 + (cp div 64) mod 64) mod 64 = (cp div 64) mod 64"
    using mod_shift [OF m, of 2] by (simp add: add.commute)
  have q: "cp div 4096 = cp div 64 div 64"
    using div_mult2_eq [of cp 64 64] by simp
  have s2: "cp div 4096 * 64 + (cp div 64) mod 64 = cp div 64"
    by (simp add: q)
  show "utf8_decoder_handler ?d2 (Some b3) = (?d3, Continue, False)"
    using handler_continuation [of ?d2 b3] m m2 s2
    by (simp add: u3 new_utf8_decoder_def)
  have r: "cp mod 64 < 64" by simp
  have m3: "(0x80 + cp mod 64) mod 64 = cp mod 64"
    using mod_shift [OF r, of 2] by (simp add: add.commute)
  show "utf8_decoder_handler ?d3 (Some b4) = (new_utf8_decoder, Scalar cp, False)"
    using handler_continuation [of ?d3 b4] r m3
    by (simp add: u4 new_utf8_decoder_def)
qed

lemma decode_2:
  assumes "unat b1 = cp div 64 + 0xC0" and "unat b2 = 0x80 + cp mod 64"
    and "0x80 \<le> cp" "cp \<le> 0x7FF"
  shows "process_queue new_utf8_decoder (b1 # b2 # bs) =
           (case process_queue new_utf8_decoder bs of (d, outs) \<Rightarrow> (d, cp # outs))"
    and "\<exists>d. process_queue new_utf8_decoder [b1] = (d, []) \<and> bytes_needed d \<noteq> 0"
proof -
  note h = two_byte_handlers [OF assms]
  show "process_queue new_utf8_decoder (b1 # b2 # bs) =
           (case process_queue new_utf8_decoder bs of (d, outs) \<Rightarrow> (d, cp # outs))"
    by (simp only: process_queue_step [OF h(1)] process_queue_step [OF h(2)])
      (simp add: replacement_output_def split: prod.splits)
  show "\<exists>d. process_queue new_utf8_decoder [b1] = (d, []) \<and> bytes_needed d \<noteq> 0"
    by (simp only: process_queue_step [OF h(1)])
      (simp add: replacement_output_def new_utf8_decoder_def)
qed

lemma decode_3:
  assumes "unat b1 = cp div 4096 + 0xE0" and "unat b2 = 0x80 + (cp div 64) mod 64"
    and "unat b3 = 0x80 + cp mod 64"
    and "0x800 \<le> cp" "cp \<le> 0xFFFF" and "\<not> (0xD800 \<le> cp \<and> cp \<le> 0xDFFF)"
  shows "process_queue new_utf8_decoder (b1 # b2 # b3 # bs) =
           (case process_queue new_utf8_decoder bs of (d, outs) \<Rightarrow> (d, cp # outs))"
    and "\<exists>d. process_queue new_utf8_decoder [b1] = (d, []) \<and> bytes_needed d \<noteq> 0"
    and "\<exists>d. process_queue new_utf8_decoder [b1, b2] = (d, []) \<and> bytes_needed d \<noteq> 0"
proof -
  note h = three_byte_handlers [OF assms]
  show "process_queue new_utf8_decoder (b1 # b2 # b3 # bs) =
           (case process_queue new_utf8_decoder bs of (d, outs) \<Rightarrow> (d, cp # outs))"
    by (simp only: process_queue_step [OF h(1)] process_queue_step [OF h(2)]
        process_queue_step [OF h(3)])
      (simp add: replacement_output_def split: prod.splits)
  show "\<exists>d. process_queue new_utf8_decoder [b1] = (d, []) \<and> bytes_needed d \<noteq> 0"
    by (simp only: process_queue_step [OF h(1)])
      (simp add: replacement_output_def new_utf8_decoder_def)
  show "\<exists>d. process_queue new_utf8_decoder [b1, b2] = (d, []) \<and> bytes_needed d \<noteq> 0"
    by (simp only: process_queue_step [OF h(1)] process_queue_step [OF h(2)])
      (simp add: replacement_output_def new_utf8_decoder_def)
qed

lemma decode_4:
  assumes "unat b1 = cp div 262144 + 0xF0" and "unat b2 = 0x80 + (cp div 4096) mod 64"
    and "unat b3 = 0x80 + (cp div 64) mod 64" and "unat b4 = 0x80 + cp mod 64"
    and "0x10000 \<le> cp" "cp \<le> 0x10FFFF"
  shows "process_queue new_utf8_decoder (b1 # b2 # b3 # b4 # bs) =
           (case process_queue new_utf8_decoder bs of (d, outs) \<Rightarrow> (d, cp # outs))"
    and "\<exists>d. process_queue new_utf8_decoder [b1] = (d, []) \<and> bytes_needed d \<noteq> 0"
    and "\<exists>d. process_queue new_utf8_decoder [b1, b2] = (d, []) \<and> bytes_needed d \<noteq> 0"
    and "\<exists>d. process_queue new_utf8_decoder [b1, b2, b3] = (d, []) \<and> bytes_needed d \<noteq> 0"
proof -
  note h = four_byte_handlers [OF assms]
  show "process_queue new_utf8_decoder (b1 # b2 # b3 # b4 # bs) =
           (case process_queue new_utf8_decoder bs of (d, outs) \<Rightarrow> (d, cp # outs))"
    by (simp only: process_queue_step [OF h(1)] process_queue_step [OF h(2)]
        process_queue_step [OF h(3)] process_queue_step [OF h(4)])
      (simp add: replacement_output_def split: prod.splits)
  show "\<exists>d. process_queue new_utf8_decoder [b1] = (d, []) \<and> bytes_needed d \<noteq> 0"
    by (simp only: process_queue_step [OF h(1)])
      (simp add: replacement_output_def new_utf8_decoder_def)
  show "\<exists>d. process_queue new_utf8_decoder [b1, b2] = (d, []) \<and> bytes_needed d \<noteq> 0"
    by (simp only: process_queue_step [OF h(1)] process_queue_step [OF h(2)])
      (simp add: replacement_output_def new_utf8_decoder_def)
  show "\<exists>d. process_queue new_utf8_decoder [b1, b2, b3] = (d, []) \<and> bytes_needed d \<noteq> 0"
    by (simp only: process_queue_step [OF h(1)] process_queue_step [OF h(2)]
        process_queue_step [OF h(3)])
      (simp add: replacement_output_def new_utf8_decoder_def)
qed

lemma split_of_two: "[a, b] = xs @ ys \<Longrightarrow> xs \<noteq> [] \<Longrightarrow> ys \<noteq> [] \<Longrightarrow> xs = [a]"
  by (auto simp: Cons_eq_append_conv)

lemma split_of_three:
  "[a, b, c] = xs @ ys \<Longrightarrow> xs \<noteq> [] \<Longrightarrow> ys \<noteq> [] \<Longrightarrow> xs = [a] \<or> xs = [a, b]"
  by (auto simp: Cons_eq_append_conv)

lemma split_of_four:
  "[a, b, c, d] = xs @ ys \<Longrightarrow> xs \<noteq> [] \<Longrightarrow> ys \<noteq> [] \<Longrightarrow>
   xs = [a] \<or> xs = [a, b] \<or> xs = [a, b, c]"
  by (auto simp: Cons_eq_append_conv)

lemma decode_encode:
  assumes "is_scalar_value cp"
  shows "process_queue new_utf8_decoder (utf8_encode cp @ bs) =
           (case process_queue new_utf8_decoder bs of (d, outs) \<Rightarrow> (d, cp # outs))"
proof -
  from assms have top: "cp \<le> 0x10FFFF" and ns: "\<not> (0xD800 \<le> cp \<and> cp \<le> 0xDFFF)"
    by (simp_all add: is_scalar_value_def)
  consider (one) "cp \<le> 0x7F" | (two) "0x80 \<le> cp" "cp \<le> 0x7FF"
    | (three) "0x800 \<le> cp" "cp \<le> 0xFFFF" | (four) "0x10000 \<le> cp"
    by linarith
  then show ?thesis
  proof cases
    case one
    then show ?thesis by (rule decode_encode_1)
  next
    case two
    note ar = two_byte_arith [OF two]
    have enc: "utf8_encode cp = [of_nat (cp div 64 + 0xC0), of_nat (0x80 + cp mod 64)]"
      using two by (simp add: utf8_encode_unroll)
    show ?thesis
      unfolding enc append_Cons append_Nil
      by (rule decode_2(1) [OF unat_byte [OF ar(1)] unat_byte [OF ar(5)] two])
  next
    case three
    note ar = three_byte_arith [OF three]
    have r: "0x80 + cp mod 64 < 256"
      using mod_less_divisor [of 64 cp] by linarith
    have enc: "utf8_encode cp = [of_nat (cp div 4096 + 0xE0),
        of_nat (0x80 + (cp div 64) mod 64), of_nat (0x80 + cp mod 64)]"
      using three by (simp add: utf8_encode_unroll)
    show ?thesis
      unfolding enc append_Cons append_Nil
      by (rule decode_3(1) [OF unat_byte [OF ar(1)] unat_byte [OF ar(5)] unat_byte [OF r] three ns])
  next
    case four
    note ar = four_byte_arith [OF four top]
    have r: "0x80 + cp mod 64 < 256"
      using mod_less_divisor [of 64 cp] by linarith
    have m: "0x80 + (cp div 64) mod 64 < 256"
      using mod_less_divisor [of 64 "cp div 64"] by linarith
    have enc: "utf8_encode cp = [of_nat (cp div 262144 + 0xF0),
        of_nat (0x80 + (cp div 4096) mod 64), of_nat (0x80 + (cp div 64) mod 64),
        of_nat (0x80 + cp mod 64)]"
      using four by (simp add: utf8_encode_unroll)
    show ?thesis
      unfolding enc append_Cons append_Nil
      by (rule decode_4(1) [OF unat_byte [OF ar(1)] unat_byte [OF ar(5)] unat_byte [OF m]
            unat_byte [OF r] four top])
  qed
qed

text \<open>
  A proper, non-empty prefix of the encoding of a scalar value gives no output and leaves
  the decoder waiting for the rest.
\<close>

lemma proper_prefix_pending:
  assumes "is_scalar_value cp" and split: "utf8_encode cp = xs @ ys" "xs \<noteq> []" "ys \<noteq> []"
  shows "\<exists>d. process_queue new_utf8_decoder xs = (d, []) \<and> bytes_needed d \<noteq> 0"
proof -
  from assms have top: "cp \<le> 0x10FFFF" and ns: "\<not> (0xD800 \<le> cp \<and> cp \<le> 0xDFFF)"
    by (simp_all add: is_scalar_value_def)
  consider (one) "cp \<le> 0x7F" | (two) "0x80 \<le> cp" "cp \<le> 0x7FF"
    | (three) "0x800 \<le> cp" "cp \<le> 0xFFFF" | (four) "0x10000 \<le> cp"
    by linarith
  then show ?thesis
  proof cases
    case one
    then have "utf8_encode cp = [of_nat cp]"
      by (simp add: utf8_encode_unroll)
    with split show ?thesis
      by (auto simp: Cons_eq_append_conv)
  next
    case two
    note ar = two_byte_arith [OF two]
    have enc: "utf8_encode cp = [of_nat (cp div 64 + 0xC0), of_nat (0x80 + cp mod 64)]"
      using two by (simp add: utf8_encode_unroll)
    from split_of_two [OF split(1) [unfolded enc] split(2,3)]
    show ?thesis
      using decode_2(2) [OF unat_byte [OF ar(1)] unat_byte [OF ar(5)] two]
      by (simp only:)
  next
    case three
    note ar = three_byte_arith [OF three]
    have r: "0x80 + cp mod 64 < 256"
      using mod_less_divisor [of 64 cp] by linarith
    have enc: "utf8_encode cp = [of_nat (cp div 4096 + 0xE0),
        of_nat (0x80 + (cp div 64) mod 64), of_nat (0x80 + cp mod 64)]"
      using three by (simp add: utf8_encode_unroll)
    note d = decode_3(2,3) [OF unat_byte [OF ar(1)] unat_byte [OF ar(5)] unat_byte [OF r] three ns]
    from split_of_three [OF split(1) [unfolded enc] split(2,3)]
    show ?thesis
    proof
      assume "xs = [of_nat (cp div 4096 + 0xE0)]"
      with d(1) show ?thesis by (simp only:)
    next
      assume "xs = [of_nat (cp div 4096 + 0xE0), of_nat (0x80 + (cp div 64) mod 64)]"
      with d(2) show ?thesis by (simp only:)
    qed
  next
    case four
    note ar = four_byte_arith [OF four top]
    have r: "0x80 + cp mod 64 < 256"
      using mod_less_divisor [of 64 cp] by linarith
    have m: "0x80 + (cp div 64) mod 64 < 256"
      using mod_less_divisor [of 64 "cp div 64"] by linarith
    have enc: "utf8_encode cp = [of_nat (cp div 262144 + 0xF0),
        of_nat (0x80 + (cp div 4096) mod 64), of_nat (0x80 + (cp div 64) mod 64),
        of_nat (0x80 + cp mod 64)]"
      using four by (simp add: utf8_encode_unroll)
    note d = decode_4(2,3,4) [OF unat_byte [OF ar(1)] unat_byte [OF ar(5)] unat_byte [OF m]
            unat_byte [OF r] four top]
    from split_of_four [OF split(1) [unfolded enc] split(2,3)]
    consider "xs = [of_nat (cp div 262144 + 0xF0)]"
      | "xs = [of_nat (cp div 262144 + 0xF0), of_nat (0x80 + (cp div 4096) mod 64)]"
      | "xs = [of_nat (cp div 262144 + 0xF0), of_nat (0x80 + (cp div 4096) mod 64),
               of_nat (0x80 + (cp div 64) mod 64)]"
      by blast
    then show ?thesis
    proof cases
      case 1
      with d(1) show ?thesis by (simp only:)
    next
      case 2
      with d(2) show ?thesis by (simp only:)
    next
      case 3
      with d(3) show ?thesis by (simp only:)
    qed
  qed
qed

lemma decode_encode_all:
  "list_all is_scalar_value cps \<Longrightarrow>
   process_queue new_utf8_decoder (concat (map utf8_encode cps)) = (new_utf8_decoder, cps)"
  by (induction cps) (simp_all add: decode_encode)

lemma surrogate_pair_arith:
  fixes c d :: nat
  assumes "0xD800 \<le> c" "c \<le> 0xDBFF" "0xDC00 \<le> d" "d \<le> 0xDFFF"
  shows "0x10000 \<le> 0x10000 + 0x400 * (c mod 0x400) + d mod 0x400"
    "0x10000 + 0x400 * (c mod 0x400) + d mod 0x400 \<le> 0x10FFFF"
    "0xD800 + (0x400 * (c mod 0x400) + d mod 0x400) div 0x400 = c"
    "0xDC00 + (0x400 * (c mod 0x400) + d mod 0x400) mod 0x400 = d"
proof -
  have cm: "c mod 0x400 = c - 0xD800"
    using assms mod_shift [of "c - 0xD800" "0x400" 54] by simp
  have dm: "d mod 0x400 = d - 0xDC00"
    using assms mod_shift [of "d - 0xDC00" "0x400" 55] by simp
  have dl: "d mod 0x400 < 0x400" by simp
  show "0x10000 \<le> 0x10000 + 0x400 * (c mod 0x400) + d mod 0x400" by simp
  show "0x10000 + 0x400 * (c mod 0x400) + d mod 0x400 \<le> 0x10FFFF"
    using assms cm dl by linarith
  have "(0x400 * (c mod 0x400) + d mod 0x400) div 0x400 = c mod 0x400"
    by simp
  then show "0xD800 + (0x400 * (c mod 0x400) + d mod 0x400) div 0x400 = c"
    using cm assms by linarith
  have "(0x400 * (c mod 0x400) + d mod 0x400) mod 0x400 = d mod 0x400"
    by simp
  then show "0xDC00 + (0x400 * (c mod 0x400) + d mod 0x400) mod 0x400 = d"
    using dm assms by linarith
qed

lemma unat_code_unit_less: "unat (c :: code_unit) < 0x10000"
  using unsigned_less [of c, where 'a = nat] by simp

lemma single_scalar: "\<not> is_surrogate c \<Longrightarrow> is_scalar_value (unat c)"
  using unat_code_unit_less [of c] by (simp add: is_scalar_value_def is_surrogate_def)

lemma to_scalar_values_scalar: "list_all is_scalar_value (to_scalar_values s)"
proof (induction s rule: to_scalar_values.induct)
  case 1
  show ?case by simp
next
  case (2 c)
  show ?case by (simp add: single_scalar) (simp add: is_scalar_value_def)
next
  case (3 c d rest)
  have pair: "is_trailing_surrogate d \<Longrightarrow> is_surrogate c \<Longrightarrow> \<not> is_trailing_surrogate c \<Longrightarrow>
      is_scalar_value (0x10000 + 0x400 * (unat c mod 0x400) + unat d mod 0x400)"
    using surrogate_pair_arith(1,2) [of "unat c" "unat d"]
    by (simp add: is_scalar_value_def is_surrogate_def is_trailing_surrogate_def)
  have fffd: "is_scalar_value 0xFFFD"
    by (simp add: is_scalar_value_def)
  note single = single_scalar [of c]
  from 3 show ?case
    by (simp add: pair fffd single)
qed


lemma code_units_single: "code_units_of (unat c) = [c]"
  using unat_code_unit_less [of c] by (simp add: code_units_of_def)

lemma leading_not_trailing: "is_leading_surrogate c \<Longrightarrow> \<not> is_trailing_surrogate c"
  by (simp add: is_leading_surrogate_def is_trailing_surrogate_def)

lemma leading_surrogate: "is_leading_surrogate c \<Longrightarrow> is_surrogate c"
  by (simp add: is_leading_surrogate_def is_surrogate_def)

lemma code_units_pair:
  assumes "is_leading_surrogate c" and "is_trailing_surrogate d"
  shows "code_units_of (0x10000 + 0x400 * (unat c mod 0x400) + unat d mod 0x400) = [c, d]"
proof -
  let ?x = "0x400 * (unat c mod 0x400) + unat d mod 0x400"
  have ar: "0xD800 + ?x div 0x400 = unat c" "0xDC00 + ?x mod 0x400 = unat d"
    using assms surrogate_pair_arith(3,4) [of "unat c" "unat d"]
    by (simp_all only: is_leading_surrogate_def is_trailing_surrogate_def)
  have "code_units_of (0x10000 + ?x) =
          [of_nat (0xD800 + ?x div 0x400), of_nat (0xDC00 + ?x mod 0x400)]"
    by (simp add: code_units_of_def)
  also have "\<dots> = [c, d]"
    by (simp only: ar) simp
  finally show ?thesis
    by (simp only: add.assoc)
qed

lemma serialize_seen:
  "well_formed s \<Longrightarrow> serialize_io_queue True (to_scalar_values s) = (s, True)"
proof (induction s rule: to_scalar_values.induct)
  case 1
  show ?case by simp
next
  case (2 c)
  then show ?case by (simp add: code_units_single)
next
  case (3 c d rest)
  show ?case
  proof (cases "is_surrogate c")
    case False
    with 3 show ?thesis by (simp add: code_units_single)
  next
    case True
    with "3.prems" have l: "is_leading_surrogate c" and t: "is_trailing_surrogate d"
      and w: "well_formed rest"
      by simp_all
    from "3.IH"(3) [OF _ _ t w] True l
    have "serialize_io_queue True (to_scalar_values rest) = (rest, True)"
      by (simp add: leading_not_trailing)
    with True l t show ?thesis
      by (simp add: leading_not_trailing code_units_pair)
  qed
qed

lemma serialize_unseen:
  "xs = [] \<or> hd xs \<noteq> 0xFEFF \<Longrightarrow>
   fst (serialize_io_queue False xs) = fst (serialize_io_queue True xs)"
  by (cases xs) (auto split: prod.splits)

lemma unat_BOM: "unat (c :: code_unit) = 0xFEFF \<Longrightarrow> c = 0xFEFF"
  by (simp add: word_unat_eq_iff)

lemma first_scalar_not_BOM:
  assumes "well_formed s" and "\<not> starts_with_BOM s"
  shows "to_scalar_values s = [] \<or> hd (to_scalar_values s) \<noteq> 0xFEFF"
proof (cases s rule: to_scalar_values.cases)
  case 1
  then show ?thesis by simp
next
  case (2 c)
  with assms show ?thesis
    by (auto simp: starts_with_BOM_def dest: unat_BOM)
next
  case (3 c d rest)
  show ?thesis
  proof (cases "is_surrogate c")
    case False
    with 3 assms show ?thesis
      by (auto simp: starts_with_BOM_def dest: unat_BOM)
  next
    case True
    with 3 assms have l: "is_leading_surrogate c" and t: "is_trailing_surrogate d"
      by simp_all
    with True 3 show ?thesis
      by (simp add: leading_not_trailing)
  qed
qed

lemma end_of_queue_new: "end_of_queue new_utf8_decoder = (new_utf8_decoder, [])"
  by (simp add: end_of_queue_def utf8_decoder_handler_def new_utf8_decoder_def
      replacement_output_def)

lemma decode_encode_string:
  assumes "well_formed s" and "\<not> starts_with_BOM s"
  shows "fst (TextDecoder_decode new_TextDecoder (TextEncoder_encode s) False) = s"
proof -
  have pq: "process_queue new_utf8_decoder (TextEncoder_encode s) =
              (new_utf8_decoder, to_scalar_values s)"
    unfolding TextEncoder_encode_def
    by (rule decode_encode_all) (rule to_scalar_values_scalar)
  have "fst (serialize_io_queue False (to_scalar_values s)) = s"
    using serialize_unseen [OF first_scalar_not_BOM [OF assms]] serialize_seen [OF assms(1)]
    by simp
  then show ?thesis
    by (simp add: TextDecoder_decode_def new_TextDecoder_def pq end_of_queue_new
        case_prod_beta)
qed

lemma process_queue_append:
  "process_queue d (xs @ ys) =
     (case process_queue d xs of
        (d1, out1) \<Rightarrow> (case process_queue d1 ys of (d2, out2) \<Rightarrow> (d2, out1 @ out2)))"
proof (induction d xs rule: process_queue.induct)
  case (1 d)
  show ?case by (simp split: prod.splits)
next
  case (2 d b bs)
  obtain d1 r restored where h: "utf8_decoder_handler d (Some b) = (d1, r, restored)"
    by (cases "utf8_decoder_handler d (Some b)") auto
  let ?q = "if restored then b # bs else bs"
  have ih: "process_queue d1 (?q @ ys) =
     (case process_queue d1 ?q of
        (d1, out1) \<Rightarrow> (case process_queue d1 ys of (d2, out2) \<Rightarrow> (d2, out1 @ out2)))"
    by (rule "2.IH" [OF h [symmetric] refl])
  have step: "process_queue d (b # zs) =
     (case process_queue d1 (if restored then b # zs else zs) of
        (d2, outs) \<Rightarrow> (d2, replacement_output r @ outs))" for zs
    by (simp only: process_queue.simps(2) h prod.case)
  have q: "(if restored then b # (bs @ ys) else bs @ ys) = ?q @ ys"
    by simp
  obtain dA oA where A: "process_queue d1 ?q = (dA, oA)"
    by (cases "process_queue d1 ?q") auto
  obtain dB oB where B: "process_queue dA ys = (dB, oB)"
    by (cases "process_queue dA ys") auto
  have "process_queue d (b # (bs @ ys)) = (dB, replacement_output r @ oA @ oB)"
    by (simp only: step [of "bs @ ys"] q ih A B prod.case)
  moreover have "process_queue d (b # bs) = (dA, replacement_output r @ oA)"
    by (simp only: step [of bs] A prod.case)
  ultimately show ?case
    by (simp only: append_Cons B prod.case append_assoc)
qed

lemma serialize_append:
  "serialize_io_queue seen (xs @ ys) =
     (case serialize_io_queue seen xs of
        (out1, seen1) \<Rightarrow>
          (case serialize_io_queue seen1 ys of (out2, seen2) \<Rightarrow> (out1 @ out2, seen2)))"
  by (induction xs arbitrary: seen) (auto split: prod.splits)

lemma stream_decode_append:
  "do_not_flush td \<Longrightarrow>
   TextDecoder_decode td (xs @ ys) True =
     (case TextDecoder_decode td xs True of
        (text1, td1) \<Rightarrow>
          (case TextDecoder_decode td1 ys True of (text2, td2) \<Rightarrow> (text1 @ text2, td2)))"
  by (simp add: TextDecoder_decode_def process_queue_append serialize_append
      case_prod_beta)

lemma stream_decode_keeps_streaming:
  "do_not_flush (snd (TextDecoder_decode td xs True))"
  by (simp add: TextDecoder_decode_def split: prod.splits)

lemma stream_decode_nil:
  "do_not_flush td \<Longrightarrow> TextDecoder_decode td [] True = ([], td)"
  by (simp add: TextDecoder_decode_def)

lemma TextDecoderStream_from_concat:
  "do_not_flush td \<Longrightarrow>
   concat (TextDecoderStream_from td chunks) = fst (TextDecoder_decode td (concat chunks) True)"
proof (induction chunks arbitrary: td)
  case Nil
  then show ?case by (simp add: stream_decode_nil)
next
  case (Cons c cs)
  obtain text1 td1 where c: "TextDecoder_decode td c True = (text1, td1)"
    by (cases "TextDecoder_decode td c True") auto
  have "do_not_flush td1"
    using stream_decode_keeps_streaming [of td c] c by simp
  from Cons.IH [OF this] Cons.prems c show ?case
    by (simp add: TextDecoderStream_transform_def stream_decode_append split: prod.splits)
qed

lemma first_stream_decode:
  "TextDecoder_decode new_TextDecoder xs True =
   TextDecoder_decode (new_TextDecoder\<lparr>do_not_flush := True\<rparr>) xs True"
  by (simp add: TextDecoder_decode_def new_TextDecoder_def)

lemma TextDecoderStream_concat:
  "concat (TextDecoderStream chunks) = fst (TextDecoder_decode new_TextDecoder (concat chunks) True)"
proof (cases chunks)
  case Nil
  then show ?thesis
    by (simp add: TextDecoderStream_def TextDecoder_decode_def new_TextDecoder_def)
next
  case (Cons c cs)
  have "TextDecoderStream chunks =
          TextDecoderStream_from (new_TextDecoder\<lparr>do_not_flush := True\<rparr>) chunks"
    by (simp add: Cons TextDecoderStream_def TextDecoderStream_transform_def first_stream_decode)
  then show ?thesis
    by (simp add: TextDecoderStream_from_concat first_stream_decode)
qed

lemma stream_decode_encoded:
  assumes "well_formed s" and "\<not> starts_with_BOM s"
  shows "fst (TextDecoder_decode new_TextDecoder (TextEncoder_encode s) True) = s"
proof -
  have pq: "process_queue new_utf8_decoder (TextEncoder_encode s) =
              (new_utf8_decoder, to_scalar_values s)"
    unfolding TextEncoder_encode_def
    by (rule decode_encode_all) (rule to_scalar_values_scalar)
  have "fst (serialize_io_queue False (to_scalar_values s)) = s"
    using serialize_unseen [OF first_scalar_not_BOM [OF assms]] serialize_seen [OF assms(1)]
    by simp
  then show ?thesis
    by (simp add: TextDecoder_decode_def new_TextDecoder_def pq case_prod_beta)
qed

section \<open>The conversions for attribute values\<close>

text \<open>
  C10, as the code has it. For every string \<open>s\<close> without lone surrogates that does not
  begin with U+FEFF, \<open>dataViewToString\<close> of a \<open>DataView\<close> over \<open>stringToUint8Array(s)\<close>
  is \<open>s\<close> again.
\<close>

theorem dataViewToString_stringToUint8Array_roundtrip:
  assumes "well_formed s" and "\<not> starts_with_BOM s"
  shows "dataViewToString (DataView_over (stringToUint8Array s)) = s"
  using decode_encode_string [OF assms]
  by (simp add: dataViewToString_def DataView_over_def stringToUint8Array_def Uint8Array_of_def)

theorem dataViewToString_stringToUint8Array_roundtrip_witness:
  "dataViewToString (DataView_over (stringToUint8Array (js ''AT'' @ [0x20AC, 0xD83D, 0xDE00])))
     = js ''AT'' @ [0x20AC, 0xD83D, 0xDE00]"
proof -
  have w: "well_formed (js ''AT'' @ [0x20AC, 0xD83D, 0xDE00])"
    by (simp add: js_def is_surrogate_def is_leading_surrogate_def is_trailing_surrogate_def)
  have b: "\<not> starts_with_BOM (js ''AT'' @ [0x20AC, 0xD83D, 0xDE00])"
    by (simp add: js_def starts_with_BOM_def)
  show ?thesis
    by (rule dataViewToString_stringToUint8Array_roundtrip [OF w b])
qed

text \<open>
  C10, as stated, fails on two kinds of strings. The decoder drops a U+FEFF at the start
  as a byte order mark: \<open>"\uFEFFA"\<close> comes back as \<open>"A"\<close>. The encoder replaces a lone
  surrogate by U+FFFD: \<open>"\uD83D"\<close> comes back as \<open>"\uFFFD"\<close>.
\<close>

theorem dataViewToString_stringToUint8Array_counterexample:
  "dataViewToString (DataView_over (stringToUint8Array [0xFEFF, 0x41])) = [0x41]
   \<and> dataViewToString (DataView_over (stringToUint8Array [0xD83D])) = [0xFFFD]"
  by (simp add: dataViewToString_def DataView_over_def stringToUint8Array_def Uint8Array_of_def
      TextEncoder_encode_def utf8_encode_unroll is_surrogate_def is_trailing_surrogate_def
      TextDecoder_decode_def new_TextDecoder_def utf8_decoder_handler_def new_utf8_decoder_def
      replacement_output_def end_of_queue_def code_units_of_def)

section \<open>The decoding stage\<close>

lemma stream_transform_prefix:
  assumes "process_queue new_utf8_decoder xs = (d, [])"
    and "decoder td = new_utf8_decoder" and "do_not_flush td"
  shows "TextDecoderStream_transform td xs = ([], td\<lparr>decoder := d\<rparr>)"
  using assms
  by (simp add: TextDecoderStream_transform_def TextDecoder_decode_def)

lemma stream_transform_rest:
  assumes "process_queue d ys = (new_utf8_decoder, [cp])" and "BOM_seen td \<or> cp \<noteq> 0xFEFF"
    and "do_not_flush td"
  shows "fst (TextDecoderStream_transform (td\<lparr>decoder := d\<rparr>) ys) = code_units_of cp"
  using assms
  by (auto simp: TextDecoderStream_transform_def TextDecoder_decode_def)

lemma split_character_from:
  assumes scalar: "is_scalar_value cp" and split: "utf8_encode cp = xs @ ys" "xs \<noteq> []" "ys \<noteq> []"
    and td: "decoder td = new_utf8_decoder" "do_not_flush td" "BOM_seen td \<or> cp \<noteq> 0xFEFF"
  shows "TextDecoderStream_from td [xs, ys] = [[], code_units_of cp]"
    and "bytes_needed (decoder (snd (TextDecoderStream_transform td xs))) \<noteq> 0"
proof -
  from proper_prefix_pending [OF scalar split]
  obtain d where d: "process_queue new_utf8_decoder xs = (d, [])" and pending: "bytes_needed d \<noteq> 0"
    by blast
  have "process_queue new_utf8_decoder (utf8_encode cp @ []) = (new_utf8_decoder, [cp])"
    by (simp only: decode_encode [OF scalar]) simp
  then have "process_queue new_utf8_decoder (xs @ ys) = (new_utf8_decoder, [cp])"
    by (simp add: split(1))
  then have rest: "process_queue d ys = (new_utf8_decoder, [cp])"
    by (simp add: process_queue_append d split: prod.splits)
  note first = stream_transform_prefix [OF d td(1,2)]
  note second = stream_transform_rest [OF rest td(3,2)]
  show "TextDecoderStream_from td [xs, ys] = [[], code_units_of cp]"
    using second by (simp add: first case_prod_beta)
  show "bytes_needed (decoder (snd (TextDecoderStream_transform td xs))) \<noteq> 0"
    using pending by (simp add: first)
qed

lemma TextDecoderStream_as_streaming:
  "chunks \<noteq> [] \<Longrightarrow>
   TextDecoderStream chunks =
     TextDecoderStream_from (new_TextDecoder\<lparr>do_not_flush := True\<rparr>) chunks"
  by (cases chunks)
    (simp_all add: TextDecoderStream_def TextDecoderStream_transform_def first_stream_decode)

text \<open>
  C3, as the code has it in the decoding stage of \<open>serialTransforms.ts\<close>. Let a scalar
  value have an encoding of several bytes, cut into a first and a second chunk, both not
  empty. At the start of the stream, unless the character is U+FEFF, and anywhere later
  in a stream whose decoder holds no unfinished sequence, the stage enqueues the empty
  text for the first chunk and the code units of the character for the second: the
  character is decoded, and no replacement character appears. After the first chunk the
  decoder still needs bytes: the prefix is kept in its state. More generally, however the
  bytes of the encoding of a string without lone surrogates and without U+FEFF at its
  start are cut into chunks, the texts that the stage enqueues concatenate to the string.
\<close>

theorem TextDecoderStream_reassembles_split_character:
  assumes "is_scalar_value cp" and "utf8_encode cp = xs @ ys" and "xs \<noteq> []" and "ys \<noteq> []"
  shows "(cp \<noteq> 0xFEFF \<longrightarrow> TextDecoderStream [xs, ys] = [[], code_units_of cp])
    \<and> (decoder td = new_utf8_decoder \<and> do_not_flush td \<and> BOM_seen td \<longrightarrow>
         TextDecoderStream_from td [xs, ys] = [[], code_units_of cp])
    \<and> bytes_needed (decoder (snd (TextDecoderStream_transform new_TextDecoder xs))) \<noteq> 0
    \<and> (well_formed s \<and> \<not> starts_with_BOM s \<and> concat chunks = TextEncoder_encode s \<longrightarrow>
         concat (TextDecoderStream chunks) = s)"
proof (intro conjI impI)
  let ?td0 = "new_TextDecoder\<lparr>do_not_flush := True\<rparr>"
  have td0: "decoder ?td0 = new_utf8_decoder" "do_not_flush ?td0"
    by (simp_all add: new_TextDecoder_def)
  show "TextDecoderStream [xs, ys] = [[], code_units_of cp]" if "cp \<noteq> 0xFEFF"
    using split_character_from(1) [OF assms td0] that
    by (simp add: TextDecoderStream_as_streaming)
  show "TextDecoderStream_from td [xs, ys] = [[], code_units_of cp]"
    if "decoder td = new_utf8_decoder \<and> do_not_flush td \<and> BOM_seen td"
    using split_character_from(1) [OF assms, of td] that by blast
  have "bytes_needed (decoder (snd (TextDecoderStream_transform ?td0 xs))) \<noteq> 0"
  proof (cases "cp = 0xFEFF")
    case False
    with split_character_from(2) [OF assms td0] show ?thesis by blast
  next
    case True
    have seen: "decoder (?td0\<lparr>BOM_seen := True\<rparr>) = new_utf8_decoder"
      "do_not_flush (?td0\<lparr>BOM_seen := True\<rparr>)"
      "BOM_seen (?td0\<lparr>BOM_seen := True\<rparr>) \<or> cp \<noteq> 0xFEFF"
      by (simp_all add: new_TextDecoder_def)
    from split_character_from(2) [OF assms seen]
    show ?thesis
      by (simp add: TextDecoderStream_transform_def TextDecoder_decode_def new_TextDecoder_def
          case_prod_beta)
  qed
  then show "bytes_needed (decoder (snd (TextDecoderStream_transform new_TextDecoder xs))) \<noteq> 0"
    by (simp add: TextDecoderStream_transform_def first_stream_decode)
  show "concat (TextDecoderStream chunks) = s"
    if "well_formed s \<and> \<not> starts_with_BOM s \<and> concat chunks = TextEncoder_encode s"
    using that stream_decode_encoded [of s]
    by (simp add: TextDecoderStream_concat)
qed

theorem TextDecoderStream_reassembles_split_character_witness:
  "TextDecoderStream [[0xE2, 0x82], [0xAC]] = [[], [0x20AC]]
   \<and> bytes_needed (decoder (snd (TextDecoderStream_transform new_TextDecoder [0xE2, 0x82]))) \<noteq> 0"
proof -
  have scalar: "is_scalar_value 0x20AC"
    by (simp add: is_scalar_value_def)
  have enc: "utf8_encode 0x20AC = [0xE2, 0x82] @ [0xAC]"
    by (simp add: utf8_encode_unroll)
  have ne: "[0xE2, 0x82] \<noteq> ([] :: byte list)" "[0xAC] \<noteq> ([] :: byte list)"
    by simp_all
  show ?thesis
    using TextDecoderStream_reassembles_split_character [OF scalar enc ne,
        of new_TextDecoder "[]" "[]"]
    by (simp add: code_units_of_def)
qed

text \<open>
  C3, as stated, fails. In the decoding stage, the three bytes of U+FEFF at the start of
  the stream, cut after the second, give no character at all: the decoder takes them for
  a byte order mark. And the read loop of the second variant of the application component
  decodes every chunk by itself, without \<open>stream\<close>: the three bytes of the euro sign,
  cut after the second, become two messages of one replacement character each.
\<close>

theorem split_character_counterexample:
  "TextDecoderStream [[0xEF, 0xBB], [0xBF]] = [[], []]
   \<and> startReading [[0xE2, 0x82], [0xAC]] [] = [[0xFFFD], [0xFFFD]]"
  by (simp add: TextDecoderStream_def TextDecoderStream_transform_def
      startReading_def startReading_chunk_def TextDecoder_decode_def
      new_TextDecoder_def utf8_decoder_handler_def new_utf8_decoder_def replacement_output_def
      end_of_queue_def code_units_of_def split_def LF_def trim_def is_white_space_def)

text \<open>
  The reader of \<open>serialTransforms.ts\<close> on the same chunks, and on the bytes of
  \<open>"READY\r\n"\<close>: the euro sign is one line, and the \<open>'\r'\<close> stays in its line.
\<close>

lemma createSerialReader_examples:
  "createSerialReader [[0xE2, 0x82], [0xAC, 0x0A]] = [[0x20AC]]"
  "createSerialReader [[0x52, 0x45, 0x41, 0x44, 0x59, 0x0D, 0x0A]] = [js ''READY'' @ [0x0D]]"
  by (simp_all add: createSerialReader_def LineBreakTransformer_def flush_def transform_def
      pop_def or_empty_def split_def LF_def js_def
      TextDecoderStream_def TextDecoderStream_transform_def TextDecoder_decode_def
      new_TextDecoder_def utf8_decoder_handler_def new_utf8_decoder_def replacement_output_def
      code_units_of_def)

section \<open>Chunking does not matter\<close>

text \<open>
  C1. For every list of chunks of text, the lines read from the line framing after the
  chunks were written in order and the stream was closed (so that \<open>flush\<close> ran) are the
  lines read after the concatenation of the chunks was written as one chunk and the stream
  was closed: the way a text is cut into chunks does not change the sequence of lines.
  The same holds one stage earlier, for the chunks of bytes that the reader of
  \<open>createSerialReader\<close> takes from the port.
\<close>

theorem LineBreakTransformer_chunking:
  "LineBreakTransformer chunks = LineBreakTransformer [concat chunks]
   \<and> createSerialReader byte_chunks = createSerialReader [concat byte_chunks]"
proof
  show "LineBreakTransformer chunks = LineBreakTransformer [concat chunks]"
    by (simp add: LineBreakTransformer_eq)
  have "concat (TextDecoderStream byte_chunks) = concat (TextDecoderStream [concat byte_chunks])"
    by (simp add: TextDecoderStream_concat)
  then show "createSerialReader byte_chunks = createSerialReader [concat byte_chunks]"
    by (simp add: createSerialReader_def LineBreakTransformer_eq)
qed

theorem LineBreakTransformer_chunking_witness:
  "LineBreakTransformer [js ''A'', js ''T\<newline>OK\<newline>'', js ''PART'']
     = [js ''AT'', js ''OK'', js ''PART'']
   \<and> LineBreakTransformer [js ''AT\<newline>'', js ''OK\<newline>PART'']
     = [js ''AT'', js ''OK'', js ''PART'']"
proof -
  have whole: "LineBreakTransformer [js ''AT\<newline>OK\<newline>PART''] = [js ''AT'', js ''OK'', js ''PART'']"
    by (simp add: LineBreakTransformer_def flush_def transform_def js_def split_def LF_def
        pop_def or_empty_def)
  have c1: "concat [js ''A'', js ''T\<newline>OK\<newline>'', js ''PART''] = js ''AT\<newline>OK\<newline>PART''"
    by (simp add: js_def)
  have c2: "concat [js ''AT\<newline>'', js ''OK\<newline>PART''] = js ''AT\<newline>OK\<newline>PART''"
    by (simp add: js_def)
  show ?thesis
    using LineBreakTransformer_chunking
        [where chunks = "[js ''A'', js ''T\<newline>OK\<newline>'', js ''PART'']", THEN conjunct1]
      LineBreakTransformer_chunking
        [where chunks = "[js ''AT\<newline>'', js ''OK\<newline>PART'']", THEN conjunct1]
    by (simp only: c1 c2 whole)
qed

end
